theory Spec2Isabelle
  imports Complex_Main
begin

section \<open>The model of supernova.c\<close>

text \<open>
  The C program keeps every physical quantity in a \<^verbatim>\<open>float\<close>. The embedding reads
  them as real numbers: \<open>+\<close>, \<open>*\<close>, \<open>sin\<close>, \<open>cos\<close> and \<open>sqrt\<close> are the exact operations,
  so rounding is not part of \<open>update_star\<close> and \<open>draw_star\<close>. The one property that
  depends on the rounding, the monotonicity of the collapse, is settled on the branch
  of the collapse with binary32 rounding (\<open>collapse_tick\<close> and \<open>f32\<close>). Integers of the
  program are \<open>int\<close> (no value of the program comes near the limits of a 32-bit
  \<^verbatim>\<open>int\<close>), loop counters over a fixed range are \<open>nat\<close>.
\<close>

subsection \<open>Constants\<close>

definition WIDTH :: nat where "WIDTH = 90"
definition HEIGHT :: nat where "HEIGHT = 32"
definition FPS :: int where "FPS = 30"

definition GIANT :: int where "GIANT = 0"
definition COLLAPSE :: int where "COLLAPSE = 1"
definition BOUNCE :: int where "BOUNCE = 2"
definition EXPLOSION :: int where "EXPLOSION = 3"
definition NEBULA :: int where "NEBULA = 4"

definition MAX_PARTICLES :: nat where "MAX_PARTICLES = 450"

text \<open>
  \<^verbatim>\<open>RAND_MAX\<close> comes from the C library, not from the program; the value is the one
  of glibc. The development only uses that it is positive.
\<close>

definition RAND_MAX :: int where "RAND_MAX = 2147483647"

subsection \<open>Data\<close>

record Particle =
  x :: real
  y :: real
  vx :: real
  vy :: real
  life :: real

record Star =
  radius :: real
  core_radius :: real
  explosion_radius :: real
  velocity :: real
  time :: real
  density :: real
  state :: int
  particles :: "Particle list"
  particle_count :: int

subsection \<open>The random number generator\<close>

text \<open>
  The hidden state of \<^verbatim>\<open>rand()\<close> is the sequence of the values it is still going to
  return. A call returns the head of the sequence and leaves the rest. The C standard
  promises values between 0 and \<^verbatim>\<open>RAND_MAX\<close>, both included: \<open>valid_rng\<close>.
\<close>

type_synonym rng = "nat \<Rightarrow> int"

definition rand :: "rng \<Rightarrow> int \<times> rng" where
  "rand g = (g 0, \<lambda>n. g (Suc n))"

definition valid_rng :: "rng \<Rightarrow> bool" where
  "valid_rng g \<longleftrightarrow> (\<forall>n. 0 \<le> g n \<and> g n \<le> RAND_MAX)"

subsection \<open>spawn\_particles\<close>

text \<open>
  One round of the loop of \<^verbatim>\<open>spawn_particles\<close>, for the index \<open>i\<close>. The three calls
  of \<^verbatim>\<open>rand()\<close> are in three statements, so their order is fixed: angle, speed, life.
  \<^verbatim>\<open>rand()%40\<close> is on a value that is not negative, where C's \<^verbatim>\<open>%\<close> is \<open>mod\<close>.
\<close>

definition spawn_one :: "nat \<Rightarrow> rng \<times> Star \<Rightarrow> rng \<times> Star" where
  "spawn_one i gs =
     (let (g, s) = gs;
          cx = real WIDTH / 2;
          cy = real HEIGHT / 2;
          (r1, g) = rand g;
          angle = (real_of_int r1 / real_of_int RAND_MAX) * 2 * pi;
          (r2, g) = rand g;
          speed = real_of_int (10 + r2 mod 40);
          (r3, g) = rand g;
          p = particles s ! i;
          p = p\<lparr>x := cx\<rparr>;
          p = p\<lparr>y := cy\<rparr>;
          p = p\<lparr>vx := cos angle * speed\<rparr>;
          p = p\<lparr>vy := sin angle * speed * 0.55\<rparr>;
          p = p\<lparr>life := 2.5 + (real_of_int r3 / real_of_int RAND_MAX) * 1.5\<rparr>
      in (g, s\<lparr>particles := (particles s)[i := p]\<rparr>))"

definition spawn_particles :: "rng \<Rightarrow> Star \<Rightarrow> rng \<times> Star" where
  "spawn_particles g s =
     fold spawn_one [0..<MAX_PARTICLES] (g, s\<lparr>particle_count := int MAX_PARTICLES\<rparr>)"

subsection \<open>draw\_star\<close>

text \<open>The cast \<^verbatim>\<open>(int)\<close> of a float drops the fraction: it rounds towards zero.\<close>

definition c_trunc :: "real \<Rightarrow> int" where
  "c_trunc r = (if 0 \<le> r then \<lfloor>r\<rfloor> else \<lceil>r\<rceil>)"

text \<open>The distance \<^verbatim>\<open>d\<close> of the cell in column \<open>px\<close> and row \<open>py\<close> from the centre.\<close>

definition cell_dist :: "int \<Rightarrow> int \<Rightarrow> real" where
  "cell_dist px py =
     (let cx = real WIDTH / 2;
          cy = real HEIGHT / 2;
          dy = (real_of_int py - cy) * 1.5;
          dx = real_of_int px - cx
      in sqrt (dx * dx + dy * dy))"

text \<open>
  The chain of \<^verbatim>\<open>if\<close>/\<^verbatim>\<open>else if\<close> on the state. In the nebula \<^verbatim>\<open>rand()\<close> is called
  only when the distance test has passed (\<^verbatim>\<open>&&\<close> evaluates its right side on demand).
\<close>

definition base_pixel :: "rng \<Rightarrow> Star \<Rightarrow> real \<Rightarrow> rng \<times> char" where
  "base_pixel g s d =
     (if state s = GIANT then
        (g, if d \<le> radius s then CHR ''#'' else CHR '' '')
      else if state s = COLLAPSE then
        (g, if d \<le> radius s then CHR ''@'' else CHR '' '')
      else if state s = BOUNCE then
        (g, if d \<le> radius s \<and> d \<ge> radius s - 1.5 then CHR ''*'' else CHR '' '')
      else if state s = EXPLOSION then
        (g, if d \<le> explosion_radius s \<and> d \<ge> explosion_radius s - 1.6
            then CHR ''*'' else CHR '' '')
      else if state s = NEBULA then
        (if d \<le> explosion_radius s then
           (let (r, g) = rand g in (g, if r mod 12 = 0 then CHR ''.'' else CHR '' ''))
         else (g, CHR '' ''))
      else (g, CHR '' ''))"

definition core_pixel :: "Star \<Rightarrow> real \<Rightarrow> char \<Rightarrow> char" where
  "core_pixel s d pixel = (if d \<le> core_radius s then CHR ''O'' else pixel)"

text \<open>One round of the loop over the particles, for the cell \<open>(px, py)\<close>.\<close>

definition particle_hit :: "Star \<Rightarrow> int \<Rightarrow> int \<Rightarrow> nat \<Rightarrow> bool" where
  "particle_hit s px py i =
     (let qx = c_trunc (x (particles s ! i));
          qy = c_trunc (y (particles s ! i))
      in qx = px \<and> qy = py \<and> life (particles s ! i) > 0)"

definition particle_pixel :: "Star \<Rightarrow> int \<Rightarrow> int \<Rightarrow> char \<Rightarrow> char" where
  "particle_pixel s px py pixel =
     fold (\<lambda>i pixel. if particle_hit s px py i then CHR ''+'' else pixel)
       [0..<nat (particle_count s)] pixel"

text \<open>The body of the inner loop of \<^verbatim>\<open>draw_star\<close>: the character of one cell.\<close>

definition draw_cell :: "rng \<Rightarrow> Star \<Rightarrow> int \<Rightarrow> int \<Rightarrow> rng \<times> char" where
  "draw_cell g s px py =
     (let d = cell_dist px py;
          (g, pixel) = base_pixel g s d;
          pixel = core_pixel s d pixel;
          pixel = particle_pixel s px py pixel
      in (g, pixel))"

text \<open>The output is collected in a string, in the order of the calls of \<^verbatim>\<open>putchar\<close>.\<close>

definition draw_row :: "Star \<Rightarrow> nat \<Rightarrow> rng \<times> string \<Rightarrow> rng \<times> string" where
  "draw_row s py gout =
     (let (g, out) =
            fold (\<lambda>px (g, out). let (g, pixel) = draw_cell g s (int px) (int py)
                                in (g, out @ [pixel]))
              [0..<WIDTH] gout
      in (g, out @ [CHR 0x0A]))"

definition clear :: string where
  "clear = [CHR 0x1B, CHR ''['', CHR ''H'', CHR 0x1B, CHR ''['', CHR ''J'']"

definition draw_star :: "rng \<Rightarrow> Star \<Rightarrow> rng \<times> string" where
  "draw_star g s = fold (draw_row s) [0..<HEIGHT] (g, clear)"

subsection \<open>update\_particles and update\_star\<close>

definition update_particle :: "real \<Rightarrow> nat \<Rightarrow> Star \<Rightarrow> Star" where
  "update_particle dt i s =
     (if life (particles s ! i) \<le> 0 then s
      else
        (let p = particles s ! i;
             p = p\<lparr>x := x p + vx p * dt\<rparr>;
             p = p\<lparr>y := y p + vy p * dt\<rparr>;
             p = p\<lparr>life := life p - dt\<rparr>
         in s\<lparr>particles := (particles s)[i := p]\<rparr>))"

definition update_particles :: "Star \<Rightarrow> real \<Rightarrow> Star" where
  "update_particles s dt = fold (update_particle dt) [0..<nat (particle_count s)] s"

definition update_star :: "rng \<Rightarrow> Star \<Rightarrow> real \<Rightarrow> rng \<times> Star" where
  "update_star g s dt =
     (let s = s\<lparr>time := time s + dt\<rparr> in
      if state s = GIANT then
        (let s = s\<lparr>radius := 9 + sin (time s * 3) * 1.5\<rparr> in
         if time s > 5 then
           (g, s\<lparr>state := COLLAPSE, time := 0, velocity := 0\<rparr>)
         else (g, s))
      else if state s = COLLAPSE then
        (let s = s\<lparr>velocity := velocity s + 40 * dt\<rparr>;
             s = s\<lparr>radius := radius s - velocity s * dt\<rparr> in
         if radius s < 3 then
           (g, s\<lparr>state := BOUNCE, time := 0, core_radius := 2\<rparr>)
         else (g, s))
      else if state s = BOUNCE then
        (let s = s\<lparr>radius := radius s + 25 * dt\<rparr> in
         if time s > 0.8 then
           spawn_particles g (s\<lparr>state := EXPLOSION, time := 0, explosion_radius := 3\<rparr>)
         else (g, s))
      else if state s = EXPLOSION then
        (let s = s\<lparr>explosion_radius := explosion_radius s + 30 * dt\<rparr>;
             s = update_particles s dt in
         if explosion_radius s > 32 then
           (g, s\<lparr>state := NEBULA, time := 0\<rparr>)
         else (g, s))
      else if state s = NEBULA then
        (let s = s\<lparr>explosion_radius := explosion_radius s + 6 * dt\<rparr>;
             s = update_particles s dt in
         if explosion_radius s > 42 then
           (g, s\<lparr>state := GIANT, time := 0, radius := 9\<rparr>)
         else (g, s))
      else (g, s))"

subsection \<open>main\<close>

text \<open>
  \<^verbatim>\<open>main\<close> sets seven fields and leaves the array of particles and \<^verbatim>\<open>density\<close> as
  they are on the stack: they are parameters of the initial state. The array has
  \<^verbatim>\<open>MAX_PARTICLES\<close> entries.
\<close>

definition init_star :: "Particle list \<Rightarrow> real \<Rightarrow> Star" where
  "init_star ps dn =
     \<lparr>radius = 9, core_radius = 0, explosion_radius = 0, velocity = 0, time = 0,
      density = dn, state = GIANT, particles = ps, particle_count = 0\<rparr>"

definition frame_dt :: real where
  "frame_dt = 1 / real_of_int FPS"

text \<open>One round of the endless loop (the sleep has no effect on the state).\<close>

definition main_step :: "rng \<times> Star \<Rightarrow> rng \<times> Star" where
  "main_step gs =
     (let (g, s) = gs;
          (g, s) = update_star g s frame_dt;
          (g, out) = draw_star g s
      in (g, s))"

definition main_loop :: "nat \<Rightarrow> rng \<Rightarrow> Particle list \<Rightarrow> real \<Rightarrow> Star" where
  "main_loop n g ps dn = snd ((main_step ^^ n) (g, init_star ps dn))"

text \<open>
  The states that calls of \<^verbatim>\<open>update_star\<close> with positive steps reach from the initial
  state; the states of \<open>main_loop\<close> are among them.
\<close>

inductive reachable :: "Star \<Rightarrow> bool" where
  reach_init: "length ps = MAX_PARTICLES \<Longrightarrow> reachable (init_star ps dn)"
| reach_step: "reachable s \<Longrightarrow> 0 < dt \<Longrightarrow> reachable (snd (update_star g s dt))"

subsection \<open>The two passes over the particles, seen on the list\<close>

text \<open>
  What one round of the loop of \<^verbatim>\<open>update_particles\<close> does to the particle it visits,
  and the particle that round \<open>i\<close> of \<^verbatim>\<open>spawn_particles\<close> writes when the generator is
  \<open>g\<close> when the pass starts. Both are proved equal to the definitions above
  (\<open>update_particles_nth\<close>, \<open>spawn_particles_eq\<close>).
\<close>

definition move_particle :: "real \<Rightarrow> Particle \<Rightarrow> Particle" where
  "move_particle dt p =
     (if life p \<le> 0 then p
      else p\<lparr>x := x p + vx p * dt, y := y p + vy p * dt, life := life p - dt\<rparr>)"

definition spawned :: "rng \<Rightarrow> nat \<Rightarrow> Particle" where
  "spawned g i =
     \<lparr>x = real WIDTH / 2, y = real HEIGHT / 2,
      vx = cos ((real_of_int (g (3 * i)) / real_of_int RAND_MAX) * 2 * pi)
             * real_of_int (10 + g (3 * i + 1) mod 40),
      vy = sin ((real_of_int (g (3 * i)) / real_of_int RAND_MAX) * 2 * pi)
             * real_of_int (10 + g (3 * i + 1) mod 40) * 0.55,
      life = 2.5 + (real_of_int (g (3 * i + 2)) / real_of_int RAND_MAX) * 1.5\<rparr>"

subsection \<open>Concrete inputs\<close>

text \<open>
  States and draws on which the theorems below are evaluated. \<open>early_explosion\<close> is a
  star right after the bounce has ended, with the particles that \<^verbatim>\<open>spawn_particles\<close>
  writes when every draw is 0. \<open>late_nebula\<close> is the same star 75 calls of
  \<^verbatim>\<open>update_particles\<close> later (30 in the explosion, 45 in the nebula), one tick before
  the restart, computed with exact arithmetic: every particle has flown from column 45
  to column 70 and its life has gone from 2.5 to 0. The radius 23 and the velocity 24
  are round values of the size these fields have then; no property evaluated on these
  states reads them. \<open>top_draws\<close> returns \<^verbatim>\<open>RAND_MAX\<close> at the third call of
  \<^verbatim>\<open>rand()\<close> and 0 elsewhere.
\<close>

definition blank_particle :: Particle where
  "blank_particle = \<lparr>x = 0, y = 0, vx = 0, vy = 0, life = 0\<rparr>"

definition live_ejecta :: Particle where
  "live_ejecta = \<lparr>x = 45, y = 16, vx = 10, vy = 0, life = 5 / 2\<rparr>"

definition dead_ejecta :: Particle where
  "dead_ejecta = \<lparr>x = 70, y = 16, vx = 10, vy = 0, life = 0\<rparr>"

definition early_explosion :: Star where
  "early_explosion =
     \<lparr>radius = 23, core_radius = 2, explosion_radius = 3, velocity = 24, time = 0,
      density = 0, state = EXPLOSION, particles = replicate MAX_PARTICLES live_ejecta,
      particle_count = int MAX_PARTICLES\<rparr>"

definition late_nebula :: Star where
  "late_nebula =
     \<lparr>radius = 23, core_radius = 2, explosion_radius = 42, velocity = 24, time = 3 / 2,
      density = 0, state = NEBULA, particles = replicate MAX_PARTICLES dead_ejecta,
      particle_count = int MAX_PARTICLES\<rparr>"

definition top_draws :: rng where
  "top_draws n = (if n = 2 then RAND_MAX else 0)"

text \<open>
  A star built for the test of the priority of the layers: the cell in column 47 and
  row 16 is at distance 2 from the centre, inside the core (radius 2), inside the band
  of the shock (from 1.4 to 3), and every particle is in that cell and alive.
\<close>

definition overlap_star :: Star where
  "overlap_star =
     \<lparr>radius = 23, core_radius = 2, explosion_radius = 3, velocity = 24, time = 0,
      density = 0, state = EXPLOSION,
      particles = replicate MAX_PARTICLES \<lparr>x = 47.5, y = 16.2, vx = 10, vy = 0, life = 1\<rparr>,
      particle_count = int MAX_PARTICLES\<rparr>"

text \<open>
  \<open>late_bounce\<close> is a star of a later cycle whose bounce ends on the next tick of
  \<^verbatim>\<open>main\<close>. \<open>collapse_entry\<close> is a star entering the collapse for the first time, with
  a binary32 radius between 7.5 and 10.5 as the giant leaves it (\<open>0x1.3b6af8p+3\<close>).
\<close>

definition late_bounce :: Star where
  "late_bounce =
     \<lparr>radius = 23, core_radius = 2, explosion_radius = 42 + 1 / 5, velocity = 24,
      time = 4 / 5, density = 0, state = BOUNCE,
      particles = replicate MAX_PARTICLES dead_ejecta,
      particle_count = int MAX_PARTICLES\<rparr>"

definition collapse_entry :: Star where
  "collapse_entry =
     \<lparr>radius = 10335612 / 2 ^ 20, core_radius = 0, explosion_radius = 0, velocity = 0,
      time = 0, density = 0, state = COLLAPSE,
      particles = replicate MAX_PARTICLES blank_particle, particle_count = 0\<rparr>"

subsection \<open>Binary32 arithmetic of the collapse\<close>

text \<open>
  Where a property depends on the rounding of the program's \<^verbatim>\<open>float\<close>s, the code is
  read in binary32: \<open>f32 r\<close> is the binary32 number nearest to \<open>r\<close>, ties to the even
  significand. A number of magnitude \<open>a\<close> has the exponent \<open>f32_exp a\<close> (not below -126,
  where the subnormal numbers start) and is rounded to a multiple of \<open>f32_ulp a\<close>, the
  distance between neighbouring binary32 numbers at that exponent (24 significant bits).
  There is no overflow to infinity in the model: a number beyond the range of binary32
  is rounded to 24 bits like any other. \<open>is_f32 r\<close> says that \<open>r\<close> is a binary32 number:
  rounding leaves it as it is.
\<close>

definition f32_exp :: "real \<Rightarrow> int" where
  "f32_exp a = max \<lfloor>log 2 a\<rfloor> (- 126)"

definition f32_ulp :: "real \<Rightarrow> real" where
  "f32_ulp a = 2 powr (real_of_int (f32_exp a) - 23)"

definition round_even :: "real \<Rightarrow> int" where
  "round_even q =
     (let f = \<lfloor>q\<rfloor> in
      if q - real_of_int f < 1 / 2 then f
      else if 1 / 2 < q - real_of_int f then f + 1
      else if even f then f else f + 1)"

definition f32 :: "real \<Rightarrow> real" where
  "f32 r =
     (if r = 0 then 0
      else sgn r * (real_of_int (round_even (\<bar>r\<bar> / f32_ulp \<bar>r\<bar>)) * f32_ulp \<bar>r\<bar>))"

definition is_f32 :: "real \<Rightarrow> bool" where
  "is_f32 r \<longleftrightarrow> f32 r = r"

text \<open>
  The tick of a star in the collapse (the first statement of \<^verbatim>\<open>update_star\<close> and its
  second branch), with the rounding \<open>rnd\<close> applied to the result of every arithmetic
  operation, in the order of the statements: \<^verbatim>\<open>40 * dt\<close> is a product of floats, and
  each \<^verbatim>\<open>+=\<close> and \<^verbatim>\<open>-=\<close> stores a float. With the identity for \<open>rnd\<close> this is
  \<open>update_star\<close> on a state of the collapse (\<open>update_star_collapse_exact\<close>); with
  \<open>f32\<close> it is what the program computes.
\<close>

definition collapse_tick :: "(real \<Rightarrow> real) \<Rightarrow> Star \<Rightarrow> real \<Rightarrow> Star" where
  "collapse_tick rnd s dt =
     (let s = s\<lparr>time := rnd (time s + dt)\<rparr>;
          s = s\<lparr>velocity := rnd (velocity s + rnd (40 * dt))\<rparr>;
          s = s\<lparr>radius := rnd (radius s - rnd (velocity s * dt))\<rparr> in
      if radius s < 3 then s\<lparr>state := BOUNCE, time := 0, core_radius := 2\<rparr> else s)"

subsection \<open>The invariant of the reachable states\<close>

text \<open>
  What holds in every reachable state (\<open>reachable_inv\<close>): the array keeps its size, the
  state is one of the five, the count of particles is 0 before the first explosion and
  450 after it, the radius of the explosion is 0 before the first explosion and stays
  above 42 from a restart to the next explosion, the velocity of the collapse is not
  negative, and the core has radius 0 before the first bounce and 2 after it.
\<close>

definition star_inv :: "Star \<Rightarrow> bool" where
  "star_inv s \<longleftrightarrow>
     length (particles s) = MAX_PARTICLES \<and>
     state s \<in> {GIANT, COLLAPSE, BOUNCE, EXPLOSION, NEBULA} \<and>
     (particle_count s = 0 \<and> explosion_radius s = 0 \<and> state s \<in> {GIANT, COLLAPSE, BOUNCE}
      \<or> particle_count s = int MAX_PARTICLES \<and>
        (state s \<in> {GIANT, COLLAPSE, BOUNCE} \<longrightarrow> explosion_radius s > 42) \<and>
        (state s \<in> {EXPLOSION, NEBULA} \<longrightarrow> explosion_radius s \<ge> 3)) \<and>
     (state s = COLLAPSE \<longrightarrow> velocity s \<ge> 0) \<and>
     core_radius s = (if particle_count s = 0 \<and> state s \<in> {GIANT, COLLAPSE} then 0 else 2)"

section \<open>Properties\<close>

lemmas state_defs = GIANT_def COLLAPSE_def BOUNCE_def EXPLOSION_def NEBULA_def

lemma cell_dist_eq:
  "cell_dist px py = sqrt ((real_of_int px - 45)\<^sup>2 + ((real_of_int py - 16) * 1.5)\<^sup>2)"
  by (simp add: cell_dist_def WIDTH_def HEIGHT_def Let_def power2_eq_square)

subsection \<open>update\_particles changes the particles only\<close>


lemma update_particle_other:
  "update_particle dt i s = s\<lparr>particles := particles (update_particle dt i s)\<rparr>"
  by (simp add: update_particle_def Let_def)

lemma fold_update_particle_other:
  "fold (update_particle dt) is s = s\<lparr>particles := particles (fold (update_particle dt) is s)\<rparr>"
proof (induction "is" arbitrary: s)
  case Nil
  show ?case by simp
next
  case (Cons i "is")
  have "fold (update_particle dt) (i # is) s = fold (update_particle dt) is (update_particle dt i s)"
    by simp
  also have "\<dots> = (update_particle dt i s)\<lparr>particles := particles (fold (update_particle dt) is (update_particle dt i s))\<rparr>"
    by (rule Cons.IH)
  also have "\<dots> = s\<lparr>particles := particles (fold (update_particle dt) is (update_particle dt i s))\<rparr>"
    by (subst update_particle_other) simp
  finally show ?case by simp
qed

lemma update_particles_other:
  "update_particles s dt = s\<lparr>particles := particles (update_particles s dt)\<rparr>"
  unfolding update_particles_def by (rule fold_update_particle_other)

lemma update_particles_fields [simp]:
  "radius (update_particles s dt) = radius s"
  "core_radius (update_particles s dt) = core_radius s"
  "explosion_radius (update_particles s dt) = explosion_radius s"
  "velocity (update_particles s dt) = velocity s"
  "time (update_particles s dt) = time s"
  "density (update_particles s dt) = density s"
  "state (update_particles s dt) = state s"
  "particle_count (update_particles s dt) = particle_count s"
  by (subst update_particles_other, simp)+

lemma update_particle_particles:
  "particles (update_particle dt i s) = (particles s)[i := move_particle dt (particles s ! i)]"
  by (simp add: update_particle_def move_particle_def Let_def)

lemma fold_update_particle_upt:
  "n \<le> length (particles s) \<Longrightarrow>
   particles (fold (update_particle dt) [0..<n] s)
     = map (move_particle dt) (take n (particles s)) @ drop n (particles s)"
proof (induction n)
  case 0
  show ?case by simp
next
  case (Suc n)
  let ?ps = "particles s"
  let ?qs = "map (move_particle dt) (take n ?ps) @ drop n ?ps"
  from Suc have IH: "particles (fold (update_particle dt) [0..<n] s) = ?qs" and n: "n < length ?ps"
    by simp_all
  have "particles (fold (update_particle dt) [0..<Suc n] s) = ?qs[n := move_particle dt (?qs ! n)]"
    by (simp add: update_particle_particles IH)
  also have "?qs ! n = ?ps ! n"
    using n by (simp add: nth_append)
  also have "?qs[n := move_particle dt (?ps ! n)]
      = map (move_particle dt) (take (Suc n) ?ps) @ drop (Suc n) ?ps"
    using n by (simp add: list_update_append take_Suc_conv_app_nth upd_conv_take_nth_drop
                      Cons_nth_drop_Suc [symmetric])
  finally show ?case .
qed

lemma update_particles_nth:
  assumes "0 \<le> particle_count s" "nat (particle_count s) \<le> length (particles s)" "i < length (particles s)"
  shows "particles (update_particles s dt) ! i
     = (if i < nat (particle_count s) then move_particle dt (particles s ! i) else particles s ! i)"
  using assms
  by (simp add: update_particles_def fold_update_particle_upt nth_append)

lemma fold_update_particle_length:
  "length (particles (fold (update_particle dt) is s)) = length (particles s)"
  by (induction "is" arbitrary: s) (simp_all add: update_particle_particles)

lemma update_particles_length [simp]:
  "length (particles (update_particles s dt)) = length (particles s)"
  by (simp add: update_particles_def fold_update_particle_length)

subsection \<open>spawn\_particles writes every entry\<close>


lemma particle_overwrite:
  "(p::Particle)\<lparr>x := a, y := b, vx := c, vy := d, life := e\<rparr> = \<lparr>x = a, y = b, vx = c, vy = d, life = e\<rparr>"
  by (cases p) simp

lemma spawn_one_eq:
  "spawn_one i (\<lambda>k. g (k + 3 * i), s)
     = (\<lambda>k. g (k + 3 * Suc i), s\<lparr>particles := (particles s)[i := spawned g i]\<rparr>)"
  by (simp add: spawn_one_def rand_def spawned_def Let_def add.commute add.left_commute eval_nat_numeral particle_overwrite)

lemma fold_spawn_one_upt:
  "n \<le> length (particles s) \<Longrightarrow>
   fold spawn_one [0..<n] (g, s)
     = (\<lambda>k. g (k + 3 * n), s\<lparr>particles := map (spawned g) [0..<n] @ drop n (particles s)\<rparr>)"
proof (induction n)
  case 0
  show ?case by simp
next
  case (Suc n)
  let ?ps = "particles s"
  let ?qs = "map (spawned g) [0..<n] @ drop n ?ps"
  from Suc have IH: "fold spawn_one [0..<n] (g, s) = (\<lambda>k. g (k + 3 * n), s\<lparr>particles := ?qs\<rparr>)"
    and n: "n < length ?ps"
    by simp_all
  have "fold spawn_one [0..<Suc n] (g, s) = spawn_one n (\<lambda>k. g (k + 3 * n), s\<lparr>particles := ?qs\<rparr>)"
    by (simp add: IH)
  also have "\<dots> = (\<lambda>k. g (k + 3 * Suc n), s\<lparr>particles := ?qs[n := spawned g n]\<rparr>)"
    by (simp add: spawn_one_eq)
  also have "?qs[n := spawned g n] = map (spawned g) [0..<Suc n] @ drop (Suc n) ?ps"
    using n by (simp add: list_update_append upd_conv_take_nth_drop
                      Cons_nth_drop_Suc [symmetric])
  finally show ?case .
qed

lemma spawn_particles_eq:
  "length (particles s) = MAX_PARTICLES \<Longrightarrow>
   spawn_particles g s
     = (\<lambda>k. g (k + 3 * MAX_PARTICLES),
        s\<lparr>particles := map (spawned g) [0..<MAX_PARTICLES], particle_count := int MAX_PARTICLES\<rparr>)"
  by (simp add: spawn_particles_def fold_spawn_one_upt)

subsection \<open>The distance of a cell from the centre\<close>

lemma particle_pixel_none:
  "particle_count s \<le> 0 \<Longrightarrow> particle_pixel s px py pixel = pixel"
  by (simp add: particle_pixel_def)

subsection \<open>The table of update\_star\<close>

lemma fold_update_particle_list:
  "particles (fold (update_particle dt) is s)
     = fold (\<lambda>i ps. ps[i := move_particle dt (ps ! i)]) is (particles s)"
  by (induction "is" arbitrary: s) (simp_all add: update_particle_particles)

lemma update_particles_eq:
  "update_particles s dt
     = s\<lparr>particles := fold (\<lambda>i ps. ps[i := move_particle dt (ps ! i)])
                          [0..<nat (particle_count s)] (particles s)\<rparr>"
  by (subst update_particles_other) (simp add: update_particles_def fold_update_particle_list)

lemma states_distinct: "distinct [GIANT, COLLAPSE, BOUNCE, EXPLOSION, NEBULA]"
  by (simp add: state_defs)

text \<open>
  C1. A tick first adds \<open>dt\<close> to the time, then takes the branch of the state, and the
  five states are different values, so no two branches apply. Each branch is given by
  the state it returns, written with the values before the call: the thresholds on the
  time are tested on \<open>time s + dt\<close>, and the collapse subtracts the new velocity
  \<open>velocity s + 40 * dt\<close>, times \<open>dt\<close>, from the radius. A state outside the five only
  has its time advanced.
\<close>

theorem update_star_table:
  "(state s = GIANT \<longrightarrow>
      update_star g s dt =
        (g, if time s + dt > 5
            then s\<lparr>time := 0, radius := 9 + sin ((time s + dt) * 3) * 1.5,
                   state := COLLAPSE, velocity := 0\<rparr>
            else s\<lparr>time := time s + dt, radius := 9 + sin ((time s + dt) * 3) * 1.5\<rparr>)) \<and>
   (state s = COLLAPSE \<longrightarrow>
      update_star g s dt =
        (g, if radius s - (velocity s + 40 * dt) * dt < 3
            then s\<lparr>time := 0, velocity := velocity s + 40 * dt,
                   radius := radius s - (velocity s + 40 * dt) * dt,
                   state := BOUNCE, core_radius := 2\<rparr>
            else s\<lparr>time := time s + dt, velocity := velocity s + 40 * dt,
                   radius := radius s - (velocity s + 40 * dt) * dt\<rparr>)) \<and>
   (state s = BOUNCE \<longrightarrow>
      update_star g s dt =
        (if time s + dt > 0.8
         then spawn_particles g
                (s\<lparr>time := 0, radius := radius s + 25 * dt, state := EXPLOSION,
                   explosion_radius := 3\<rparr>)
         else (g, s\<lparr>time := time s + dt, radius := radius s + 25 * dt\<rparr>))) \<and>
   (state s = EXPLOSION \<longrightarrow>
      update_star g s dt =
        (g, if explosion_radius s + 30 * dt > 32
            then s\<lparr>time := 0, explosion_radius := explosion_radius s + 30 * dt,
                   particles := particles (update_particles s dt), state := NEBULA\<rparr>
            else s\<lparr>time := time s + dt, explosion_radius := explosion_radius s + 30 * dt,
                   particles := particles (update_particles s dt)\<rparr>)) \<and>
   (state s = NEBULA \<longrightarrow>
      update_star g s dt =
        (g, if explosion_radius s + 6 * dt > 42
            then s\<lparr>time := 0, explosion_radius := explosion_radius s + 6 * dt,
                   particles := particles (update_particles s dt), state := GIANT,
                   radius := 9\<rparr>
            else s\<lparr>time := time s + dt, explosion_radius := explosion_radius s + 6 * dt,
                   particles := particles (update_particles s dt)\<rparr>)) \<and>
   (state s \<notin> {GIANT, COLLAPSE, BOUNCE, EXPLOSION, NEBULA} \<longrightarrow>
      update_star g s dt = (g, s\<lparr>time := time s + dt\<rparr>)) \<and>
   distinct [GIANT, COLLAPSE, BOUNCE, EXPLOSION, NEBULA]"
proof (intro conjI impI)
  show "distinct [GIANT, COLLAPSE, BOUNCE, EXPLOSION, NEBULA]"
    by (rule states_distinct)
next
  assume "state s = GIANT"
  then show "update_star g s dt =
        (g, if time s + dt > 5
            then s\<lparr>time := 0, radius := 9 + sin ((time s + dt) * 3) * 1.5,
                   state := COLLAPSE, velocity := 0\<rparr>
            else s\<lparr>time := time s + dt, radius := 9 + sin ((time s + dt) * 3) * 1.5\<rparr>)"
    by (simp add: update_star_def Let_def)
next
  assume "state s = COLLAPSE"
  then show "update_star g s dt =
        (g, if radius s - (velocity s + 40 * dt) * dt < 3
            then s\<lparr>time := 0, velocity := velocity s + 40 * dt,
                   radius := radius s - (velocity s + 40 * dt) * dt,
                   state := BOUNCE, core_radius := 2\<rparr>
            else s\<lparr>time := time s + dt, velocity := velocity s + 40 * dt,
                   radius := radius s - (velocity s + 40 * dt) * dt\<rparr>)"
    by (simp add: update_star_def Let_def state_defs)
next
  assume "state s = BOUNCE"
  then show "update_star g s dt =
        (if time s + dt > 0.8
         then spawn_particles g
                (s\<lparr>time := 0, radius := radius s + 25 * dt, state := EXPLOSION,
                   explosion_radius := 3\<rparr>)
         else (g, s\<lparr>time := time s + dt, radius := radius s + 25 * dt\<rparr>))"
    by (cases s) (simp add: update_star_def Let_def state_defs)
next
  assume "state s = EXPLOSION"
  then show "update_star g s dt =
        (g, if explosion_radius s + 30 * dt > 32
            then s\<lparr>time := 0, explosion_radius := explosion_radius s + 30 * dt,
                   particles := particles (update_particles s dt), state := NEBULA\<rparr>
            else s\<lparr>time := time s + dt, explosion_radius := explosion_radius s + 30 * dt,
                   particles := particles (update_particles s dt)\<rparr>)"
    by (simp add: update_star_def Let_def state_defs update_particles_eq)
next
  assume "state s = NEBULA"
  then show "update_star g s dt =
        (g, if explosion_radius s + 6 * dt > 42
            then s\<lparr>time := 0, explosion_radius := explosion_radius s + 6 * dt,
                   particles := particles (update_particles s dt), state := GIANT,
                   radius := 9\<rparr>
            else s\<lparr>time := time s + dt, explosion_radius := explosion_radius s + 6 * dt,
                   particles := particles (update_particles s dt)\<rparr>)"
    by (simp add: update_star_def Let_def state_defs update_particles_eq)
next
  assume "state s \<notin> {GIANT, COLLAPSE, BOUNCE, EXPLOSION, NEBULA}"
  then show "update_star g s dt = (g, s\<lparr>time := time s + dt\<rparr>)"
    by (simp add: update_star_def Let_def)
qed



theorem update_star_table_witness:
  "update_star (\<lambda>n. 0) (init_star (replicate MAX_PARTICLES blank_particle) 0) frame_dt
     = (\<lambda>n. 0, (init_star (replicate MAX_PARTICLES blank_particle) 0)
                  \<lparr>time := 1 / 30, radius := 9 + sin (1 / 10) * 1.5\<rparr>) \<and>
   state (snd (update_star (\<lambda>n. 0) late_nebula frame_dt)) = GIANT \<and>
   radius (snd (update_star (\<lambda>n. 0) late_nebula frame_dt)) = 9 \<and>
   time (snd (update_star (\<lambda>n. 0) late_nebula frame_dt)) = 0"
  using update_star_table [of "init_star (replicate MAX_PARTICLES blank_particle) 0" "\<lambda>n. 0" frame_dt]
    update_star_table [of late_nebula "\<lambda>n. 0" frame_dt]
  by (simp add: init_star_def late_nebula_def frame_dt_def FPS_def state_defs)

subsection \<open>What update\_particles does to one particle\<close>

lemma update_particles_iter_dead:
  assumes "0 \<le> particle_count s" and "nat (particle_count s) \<le> length (particles s)"
    and "i < nat (particle_count s)" and "life (particles s ! i) \<le> 0"
  shows "particles (((\<lambda>s. update_particles s dt) ^^ n) s) ! i = particles s ! i \<and>
         particle_count (((\<lambda>s. update_particles s dt) ^^ n) s) = particle_count s \<and>
         length (particles (((\<lambda>s. update_particles s dt) ^^ n) s)) = length (particles s)"
proof (induction n)
  case 0
  show ?case by simp
next
  case (Suc n)
  let ?t = "((\<lambda>s. update_particles s dt) ^^ n) s"
  from Suc assms have "particles (update_particles ?t dt) ! i = move_particle dt (particles ?t ! i)"
    by (simp add: update_particles_nth)
  with Suc assms show ?case
    by (simp add: move_particle_def)
qed

text \<open>
  C2, as amended. A particle of the ensemble with \<open>life > 0\<close> moves by its velocity
  times \<open>dt\<close> and loses \<open>dt\<close> of life. A particle with \<open>life \<le> 0\<close> is skipped whole:
  the \<^verbatim>\<open>continue\<close> comes before the countdown too, so neither its position nor its
  life changes, however many calls follow.
\<close>

theorem update_particles_each:
  assumes "0 \<le> particle_count s" and "nat (particle_count s) \<le> length (particles s)"
    and "i < nat (particle_count s)"
  shows "(life (particles s ! i) > 0 \<longrightarrow>
            particles (update_particles s dt) ! i
              = (particles s ! i)\<lparr>x := x (particles s ! i) + vx (particles s ! i) * dt,
                                  y := y (particles s ! i) + vy (particles s ! i) * dt,
                                  life := life (particles s ! i) - dt\<rparr>) \<and>
         (life (particles s ! i) \<le> 0 \<longrightarrow>
            particles (((\<lambda>s. update_particles s dt) ^^ n) s) ! i = particles s ! i)"
  using assms update_particles_iter_dead [of s i n dt]
  by (simp add: update_particles_nth move_particle_def)

theorem update_particles_each_witness:
  "particles (update_particles early_explosion frame_dt) ! 7
     = \<lparr>x = 45 + 1 / 3, y = 16, vx = 10, vy = 0, life = 5 / 2 - 1 / 30\<rparr> \<and>
   particles (((\<lambda>s. update_particles s frame_dt) ^^ 5) late_nebula) ! 7 = dead_ejecta"
  using update_particles_each [of early_explosion 7 frame_dt 5]
    update_particles_each [of late_nebula 7 frame_dt 5]
  by (simp add: early_explosion_def late_nebula_def live_ejecta_def dead_ejecta_def
        MAX_PARTICLES_def frame_dt_def FPS_def)

text \<open>
  C2 as the specification states it fails: for a dead particle the countdown does not go
  on. In \<open>late_nebula\<close> the life of particle 0 is 0, and after the call it is still 0,
  not \<open>- 1 / 30\<close>.
\<close>

theorem dead_particle_countdown_counterexample:
  "life (particles late_nebula ! 0) \<le> 0 \<and>
   life (particles (update_particles late_nebula frame_dt) ! 0)
     \<noteq> life (particles late_nebula ! 0) - frame_dt"
proof -
  have "particles (update_particles late_nebula frame_dt) ! 0 = dead_ejecta"
    by (simp add: update_particles_nth late_nebula_def MAX_PARTICLES_def move_particle_def
          dead_ejecta_def)
  then show ?thesis
    by (simp add: late_nebula_def MAX_PARTICLES_def dead_ejecta_def frame_dt_def FPS_def)
qed



subsection \<open>The particles after spawn\_particles\<close>

lemma spawned_props:
  assumes "valid_rng g"
  shows "x (spawned g i) = real WIDTH / 2" and "y (spawned g i) = real HEIGHT / 2"
    and "\<exists>angle speed. 0 \<le> angle \<and> angle < 2 * pi \<and> 10 \<le> speed \<and> speed < 50 \<and>
           vx (spawned g i) = cos angle * real_of_int speed \<and>
           vy (spawned g i) = sin angle * real_of_int speed * 0.55"
    and "2.5 \<le> life (spawned g i)" and "life (spawned g i) \<le> 4"
proof -
  define u where "u = real_of_int (g (3 * i)) / real_of_int RAND_MAX"
  define w where "w = real_of_int (g (3 * i + 2)) / real_of_int RAND_MAX"
  define sp where "sp = 10 + g (3 * i + 1) mod 40"
  from assms have gb: "0 \<le> g n" "g n \<le> RAND_MAX" for n
    by (simp_all add: valid_rng_def)
  have rm: "0 < real_of_int RAND_MAX"
    by (simp add: RAND_MAX_def)
  have u: "0 \<le> u" "u \<le> 1" and w: "0 \<le> w" "w \<le> 1"
    using gb [of "3 * i"] gb [of "3 * i + 2"] rm by (simp_all add: u_def w_def)
  have sp: "10 \<le> sp" "sp < 50"
    by (simp_all add: sp_def)
  show "x (spawned g i) = real WIDTH / 2" "y (spawned g i) = real HEIGHT / 2"
    by (simp_all add: spawned_def)
  have "life (spawned g i) = 2.5 + w * 1.5"
    by (simp add: spawned_def w_def)
  with w show "2.5 \<le> life (spawned g i)" "life (spawned g i) \<le> 4"
    by simp_all
  have v: "vx (spawned g i) = cos (u * 2 * pi) * real_of_int sp"
    "vy (spawned g i) = sin (u * 2 * pi) * real_of_int sp * 0.55"
    by (simp_all add: spawned_def u_def sp_def)
  show "\<exists>angle speed. 0 \<le> angle \<and> angle < 2 * pi \<and> 10 \<le> speed \<and> speed < 50 \<and>
           vx (spawned g i) = cos angle * real_of_int speed \<and>
           vy (spawned g i) = sin angle * real_of_int speed * 0.55"
  proof (cases "u = 1")
    case True
    with v have "vx (spawned g i) = cos 0 * real_of_int sp"
      "vy (spawned g i) = sin 0 * real_of_int sp * 0.55"
      by simp_all
    with sp show ?thesis
      by (intro exI [of _ 0] exI [of _ sp]) simp
  next
    case False
    with u have "u * 2 * pi < 2 * pi" "0 \<le> u * 2 * pi"
      by simp_all
    with v sp show ?thesis
      by (intro exI [of _ "u * 2 * pi"] exI [of _ sp]) simp
  qed
qed

text \<open>
  C5, as amended. After \<^verbatim>\<open>spawn_particles\<close> the count is 450 and each of the 450
  particles is at the centre of the grid, has the velocity
  \<open>(cos angle * speed, sin angle * speed * 0.55)\<close> of an angle in \<open>[0, 2 * pi)\<close> and an
  integer speed in \<open>[10, 50)\<close>, and a life in the closed interval \<open>[2.5, 4]\<close>. (The angle
  the code draws is in \<open>[0, 2 * pi]\<close>; at \<open>2 * pi\<close> the velocity is the one of angle 0.)
\<close>

theorem spawn_particles_ensemble:
  assumes "valid_rng g" and "length (particles s) = MAX_PARTICLES" and "i < MAX_PARTICLES"
  shows "particle_count (snd (spawn_particles g s)) = 450 \<and>
         x (particles (snd (spawn_particles g s)) ! i) = real WIDTH / 2 \<and>
         y (particles (snd (spawn_particles g s)) ! i) = real HEIGHT / 2 \<and>
         (\<exists>angle speed. 0 \<le> angle \<and> angle < 2 * pi \<and> 10 \<le> speed \<and> speed < 50 \<and>
            vx (particles (snd (spawn_particles g s)) ! i) = cos angle * real_of_int speed \<and>
            vy (particles (snd (spawn_particles g s)) ! i)
              = sin angle * real_of_int speed * 0.55) \<and>
         2.5 \<le> life (particles (snd (spawn_particles g s)) ! i) \<and>
         life (particles (snd (spawn_particles g s)) ! i) \<le> 4"
proof -
  from assms have "particles (snd (spawn_particles g s)) ! i = spawned g i"
    by (simp add: spawn_particles_eq)
  moreover from assms have "particle_count (snd (spawn_particles g s)) = 450"
    by (simp add: spawn_particles_eq MAX_PARTICLES_def)
  ultimately show ?thesis
    using spawned_props [OF assms(1), of i] by simp
qed

theorem spawn_particles_ensemble_witness:
  "life (particles (snd (spawn_particles top_draws early_explosion)) ! 3) = 5 / 2 \<and>
   x (particles (snd (spawn_particles top_draws early_explosion)) ! 3) = 45 \<and>
   y (particles (snd (spawn_particles top_draws early_explosion)) ! 3) = 16"
proof -
  have v: "valid_rng top_draws"
    by (simp add: valid_rng_def top_draws_def RAND_MAX_def)
  have l: "length (particles early_explosion) = MAX_PARTICLES"
    by (simp add: early_explosion_def)
  have i: "3 < MAX_PARTICLES"
    by (simp add: MAX_PARTICLES_def)
  have "particles (snd (spawn_particles top_draws early_explosion)) ! 3 = spawned top_draws 3"
    using l i by (simp add: spawn_particles_eq MAX_PARTICLES_def)
  then have "life (particles (snd (spawn_particles top_draws early_explosion)) ! 3) \<le> 5 / 2"
    by (simp add: spawned_def top_draws_def)
  with spawn_particles_ensemble [OF v l i] show ?thesis
    by (simp add: WIDTH_def HEIGHT_def)
qed

text \<open>
  C5 as the specification states it fails at the upper end of the life: when
  \<^verbatim>\<open>rand()\<close> returns \<^verbatim>\<open>RAND_MAX\<close>, the quotient \<^verbatim>\<open>(float)rand()/RAND_MAX\<close> is 1 and
  the life is exactly 4, outside \<open>[2.5, 4)\<close>.
\<close>

theorem spawn_life_counterexample:
  "valid_rng top_draws \<and>
   life (particles (snd (spawn_particles top_draws early_explosion)) ! 0) = 4 \<and>
   \<not> life (particles (snd (spawn_particles top_draws early_explosion)) ! 0) < 4"
proof -
  have "particles (snd (spawn_particles top_draws early_explosion)) ! 0 = spawned top_draws 0"
    by (simp add: spawn_particles_eq early_explosion_def MAX_PARTICLES_def)
  moreover have "life (spawned top_draws 0) = 4"
    by (simp add: spawned_def top_draws_def RAND_MAX_def)
  moreover have "valid_rng top_draws"
    by (simp add: valid_rng_def top_draws_def RAND_MAX_def)
  ultimately show ?thesis by simp
qed

subsection \<open>The fields after spawn\_particles and after update\_star\<close>

lemma spawn_one_other:
  "snd (spawn_one i (g, s)) = s\<lparr>particles := particles (snd (spawn_one i (g, s)))\<rparr>"
  by (simp add: spawn_one_def Let_def split: prod.splits)

lemma fold_spawn_one_other:
  "snd (fold spawn_one is (g, s)) = s\<lparr>particles := particles (snd (fold spawn_one is (g, s)))\<rparr>"
proof (induction "is" arbitrary: g s)
  case Nil
  show ?case by simp
next
  case (Cons i "is")
  obtain g' s' where st: "spawn_one i (g, s) = (g', s')"
    by (cases "spawn_one i (g, s)")
  then have s': "s' = s\<lparr>particles := particles s'\<rparr>"
    using spawn_one_other [of i g s] by simp
  have "snd (fold spawn_one (i # is) (g, s)) = snd (fold spawn_one is (g', s'))"
    by (simp add: st)
  also have "\<dots> = s'\<lparr>particles := particles (snd (fold spawn_one is (g', s')))\<rparr>"
    by (rule Cons.IH)
  also have "\<dots> = s\<lparr>particles := particles (snd (fold spawn_one is (g', s')))\<rparr>"
    by (subst s') simp
  finally show ?case by (simp add: st)
qed

lemma spawn_particles_other:
  "snd (spawn_particles g s)
     = s\<lparr>particles := particles (snd (spawn_particles g s)),
          particle_count := int MAX_PARTICLES\<rparr>"
  unfolding spawn_particles_def
  by (subst fold_spawn_one_other) simp

lemma spawn_particles_fields [simp]:
  "radius (snd (spawn_particles g s)) = radius s"
  "core_radius (snd (spawn_particles g s)) = core_radius s"
  "explosion_radius (snd (spawn_particles g s)) = explosion_radius s"
  "velocity (snd (spawn_particles g s)) = velocity s"
  "time (snd (spawn_particles g s)) = time s"
  "density (snd (spawn_particles g s)) = density s"
  "state (snd (spawn_particles g s)) = state s"
  "particle_count (snd (spawn_particles g s)) = int MAX_PARTICLES"
  by (subst spawn_particles_other, simp)+

lemma fold_spawn_one_length:
  "length (particles (snd (fold spawn_one is gs))) = length (particles (snd gs))"
  by (induction "is" arbitrary: gs) (simp_all add: spawn_one_def Let_def split: prod.splits)

lemma spawn_particles_length [simp]:
  "length (particles (snd (spawn_particles g s))) = length (particles s)"
  by (simp add: spawn_particles_def fold_spawn_one_length)

lemma step_state:
  "state (snd (update_star g s dt)) =
     (if state s = GIANT then (if time s + dt > 5 then COLLAPSE else GIANT)
      else if state s = COLLAPSE then
        (if radius s - (velocity s + 40 * dt) * dt < 3 then BOUNCE else COLLAPSE)
      else if state s = BOUNCE then (if time s + dt > 0.8 then EXPLOSION else BOUNCE)
      else if state s = EXPLOSION then
        (if explosion_radius s + 30 * dt > 32 then NEBULA else EXPLOSION)
      else if state s = NEBULA then
        (if explosion_radius s + 6 * dt > 42 then GIANT else NEBULA)
      else state s)"
  by (simp add: update_star_def Let_def)

lemma step_time:
  "time (snd (update_star g s dt)) =
     (if state (snd (update_star g s dt)) = state s then time s + dt else 0)"
  by (simp add: update_star_def Let_def state_defs)

lemma step_radius:
  "radius (snd (update_star g s dt)) =
     (if state s = GIANT then 9 + sin ((time s + dt) * 3) * 1.5
      else if state s = COLLAPSE then radius s - (velocity s + 40 * dt) * dt
      else if state s = BOUNCE then radius s + 25 * dt
      else if state s = NEBULA \<and> explosion_radius s + 6 * dt > 42 then 9
      else radius s)"
  by (simp add: update_star_def Let_def state_defs)

lemma step_velocity:
  "velocity (snd (update_star g s dt)) =
     (if state s = GIANT \<and> time s + dt > 5 then 0
      else if state s = COLLAPSE then velocity s + 40 * dt
      else velocity s)"
  by (simp add: update_star_def Let_def state_defs)

lemma step_core_radius:
  "core_radius (snd (update_star g s dt)) =
     (if state s = COLLAPSE \<and> radius s - (velocity s + 40 * dt) * dt < 3 then 2
      else core_radius s)"
  by (simp add: update_star_def Let_def state_defs)

lemma step_explosion_radius:
  "explosion_radius (snd (update_star g s dt)) =
     (if state s = BOUNCE \<and> time s + dt > 0.8 then 3
      else if state s = EXPLOSION then explosion_radius s + 30 * dt
      else if state s = NEBULA then explosion_radius s + 6 * dt
      else explosion_radius s)"
  by (simp add: update_star_def Let_def state_defs)

lemma step_particle_count:
  "particle_count (snd (update_star g s dt)) =
     (if state s = BOUNCE \<and> time s + dt > 0.8 then int MAX_PARTICLES
      else particle_count s)"
  by (simp add: update_star_def Let_def state_defs)

lemma step_length:
  "length (particles (snd (update_star g s dt))) = length (particles s)"
  by (simp add: update_star_def Let_def state_defs)

lemmas step_fields = step_state step_radius step_velocity step_core_radius
  step_explosion_radius step_particle_count step_length

lemma star_inv_init: "length ps = MAX_PARTICLES \<Longrightarrow> star_inv (init_star ps dn)"
  by (simp add: star_inv_def init_star_def)

lemma star_inv_step:
  assumes "star_inv s" and "0 < dt"
  shows "star_inv (snd (update_star g s dt))"
proof -
  from assms(1) consider "state s = GIANT" | "state s = COLLAPSE" | "state s = BOUNCE"
    | "state s = EXPLOSION" | "state s = NEBULA"
    by (auto simp: star_inv_def)
  then show ?thesis
  proof cases
    case 1
    with assms show ?thesis
      by (auto simp add: star_inv_def step_fields state_defs MAX_PARTICLES_def)
  next
    case 2
    with assms show ?thesis
      by (auto simp add: star_inv_def step_fields state_defs MAX_PARTICLES_def)
  next
    case 3
    with assms show ?thesis
      by (auto simp add: star_inv_def step_fields state_defs MAX_PARTICLES_def)
  next
    case 4
    with assms show ?thesis
      by (auto simp add: star_inv_def step_fields state_defs MAX_PARTICLES_def)
  next
    case 5
    with assms show ?thesis
      by (auto simp add: star_inv_def step_fields state_defs MAX_PARTICLES_def)
  qed
qed

lemma reachable_inv: "reachable s \<Longrightarrow> star_inv s"
  by (induction rule: reachable.induct) (simp_all add: star_inv_init star_inv_step)

subsection \<open>The characters that draw\_star prints\<close>

lemma particle_pixel_fold:
  "fold (\<lambda>i pixel. if particle_hit s px py i then CHR ''+'' else pixel) [0..<n] pixel
     = (if \<exists>i<n. particle_hit s px py i then CHR ''+'' else pixel)"
  by (induction n) (auto simp: less_Suc_eq)

lemma particle_pixel_eq:
  "particle_pixel s px py pixel
     = (if \<exists>i<nat (particle_count s). particle_hit s px py i then CHR ''+'' else pixel)"
  by (simp add: particle_pixel_def particle_pixel_fold)

lemma draw_cell_snd:
  "snd (draw_cell g s px py)
     = (if \<exists>i<nat (particle_count s). particle_hit s px py i then CHR ''+''
        else if cell_dist px py \<le> core_radius s then CHR ''O''
        else snd (base_pixel g s (cell_dist px py)))"
  by (auto simp: draw_cell_def Let_def particle_pixel_eq core_pixel_def split: prod.splits)

lemma base_pixel_chars:
  "snd (base_pixel g s d) \<in> {CHR ''#'', CHR ''@'', CHR ''*'', CHR ''.'', CHR '' ''}"
  by (simp add: base_pixel_def Let_def split: prod.splits)

lemma draw_cells_fold:
  "\<exists>g' cs. fold (\<lambda>px (g, out). let (g, pixel) = draw_cell g s (int px) py
                                in (g, out @ [pixel])) [0..<n] (g, out) = (g', out @ cs) \<and>
     length cs = n \<and> (\<forall>k<n. \<exists>g''. cs ! k = snd (draw_cell g'' s (int k) py))"
proof (induction n)
  case 0
  show ?case by simp
next
  case (Suc n)
  let ?f = "\<lambda>px (g, out). let (g, pixel) = draw_cell g s (int px) py in (g, out @ [pixel])"
  from Suc obtain g' cs where f: "fold ?f [0..<n] (g, out) = (g', out @ cs)"
    and l: "length cs = n"
    and c: "\<forall>k<n. \<exists>g''. cs ! k = snd (draw_cell g'' s (int k) py)"
    by blast
  obtain g1 c1 where d: "draw_cell g' s (int n) py = (g1, c1)"
    by (cases "draw_cell g' s (int n) py")
  have "fold ?f [0..<Suc n] (g, out) = (g1, out @ (cs @ [c1]))"
    using f d by simp
  moreover have "length (cs @ [c1]) = Suc n"
    using l by simp
  moreover have "\<forall>k<Suc n. \<exists>g''. (cs @ [c1]) ! k = snd (draw_cell g'' s (int k) py)"
  proof (intro allI impI)
    fix k assume "k < Suc n"
    then consider "k < n" | "k = n" by linarith
    then show "\<exists>g''. (cs @ [c1]) ! k = snd (draw_cell g'' s (int k) py)"
    proof cases
      case 1
      with c l show ?thesis by (simp add: nth_append)
    next
      case 2
      with l d show ?thesis by (auto simp: nth_append intro: exI [of _ g'])
    qed
  qed
  ultimately show ?case by blast
qed

lemma draw_row_eq:
  "\<exists>g' cs. draw_row s py (g, out) = (g', out @ cs @ [CHR 0x0A]) \<and>
     length cs = WIDTH \<and> (\<forall>k<WIDTH. \<exists>g''. cs ! k = snd (draw_cell g'' s (int k) (int py)))"
proof -
  from draw_cells_fold [of s "int py" WIDTH g out] obtain g' cs where
    "fold (\<lambda>px (g, out). let (g, pixel) = draw_cell g s (int px) (int py)
                                in (g, out @ [pixel])) [0..<WIDTH] (g, out) = (g', out @ cs)"
    "length cs = WIDTH" "\<forall>k<WIDTH. \<exists>g''. cs ! k = snd (draw_cell g'' s (int k) (int py))"
    by blast
  then show ?thesis
    by (auto simp: draw_row_def)
qed

lemma draw_rows_fold:
  "\<exists>g' rs. fold (draw_row s) [0..<m] (g, out) = (g', out @ rs) \<and>
     length rs = m * Suc WIDTH \<and>
     (\<forall>py<m. \<forall>px<WIDTH. \<exists>g''. rs ! (py * Suc WIDTH + px) = snd (draw_cell g'' s (int px) (int py)))"
proof (induction m)
  case 0
  show ?case by simp
next
  case (Suc m)
  from Suc obtain g' rs where f: "fold (draw_row s) [0..<m] (g, out) = (g', out @ rs)"
    and l: "length rs = m * Suc WIDTH"
    and c: "\<forall>py<m. \<forall>px<WIDTH. \<exists>g''. rs ! (py * Suc WIDTH + px) = snd (draw_cell g'' s (int px) (int py))"
    by blast
  from draw_row_eq [of s m g' "out @ rs"] obtain g1 cs where
    r: "draw_row s m (g', out @ rs) = (g1, (out @ rs) @ cs @ [CHR 0x0A])"
    and lc: "length cs = WIDTH"
    and cc: "\<forall>k<WIDTH. \<exists>g''. cs ! k = snd (draw_cell g'' s (int k) (int m))"
    by blast
  let ?rs = "rs @ cs @ [CHR 0x0A]"
  have "fold (draw_row s) [0..<Suc m] (g, out) = (g1, out @ ?rs)"
    by (simp add: f r)
  moreover have "length ?rs = Suc m * Suc WIDTH"
    using l lc by simp
  moreover have "\<forall>py<Suc m. \<forall>px<WIDTH. \<exists>g''. ?rs ! (py * Suc WIDTH + px) = snd (draw_cell g'' s (int px) (int py))"
  proof (intro allI impI)
    fix py px assume py: "py < Suc m" and px: "px < WIDTH"
    from py consider "py < m" | "py = m" by linarith
    then show "\<exists>g''. ?rs ! (py * Suc WIDTH + px) = snd (draw_cell g'' s (int px) (int py))"
    proof cases
      case 1
      then have "Suc py \<le> m" by simp
      then have "Suc py * Suc WIDTH \<le> m * Suc WIDTH"
        by (rule mult_le_mono1)
      with px have "py * Suc WIDTH + px < length rs"
        using l by simp
      with c 1 px show ?thesis by (simp add: nth_append)
    next
      case 2
      with l lc px have "?rs ! (py * Suc WIDTH + px) = cs ! px"
        by (simp add: nth_append)
      with cc px 2 show ?thesis by simp
    qed
  qed
  ultimately show ?case by blast
qed

lemma draw_star_cell:
  assumes "px < WIDTH" and "py < HEIGHT"
  shows "\<exists>g'. snd (draw_star g s) ! (length clear + py * Suc WIDTH + px)
            = snd (draw_cell g' s (int px) (int py))"
proof -
  from draw_rows_fold [of s HEIGHT g clear] obtain g' rs where
    f: "draw_star g s = (g', clear @ rs)"
    and c: "\<forall>py<HEIGHT. \<forall>px<WIDTH. \<exists>g''. rs ! (py * Suc WIDTH + px) = snd (draw_cell g'' s (int px) (int py))"
    unfolding draw_star_def by blast
  have "snd (draw_star g s) ! (length clear + py * Suc WIDTH + px) = rs ! (py * Suc WIDTH + px)"
    by (simp add: f nth_append add.assoc)
  with c assms show ?thesis by simp
qed

lemma draw_row_chars:
  assumes "draw_row s py (g, out) = (g', out')" and "c \<in> set out'"
  shows "c \<in> set out \<or> c = CHR 0x0A \<or> (\<exists>g'' px. c = snd (draw_cell g'' s px (int py)))"
proof -
  from draw_row_eq [of s py g out] assms(1) obtain cs where
    o: "out' = out @ cs @ [CHR 0x0A]" and l: "length cs = WIDTH"
    and c: "\<forall>k<WIDTH. \<exists>g''. cs ! k = snd (draw_cell g'' s (int k) (int py))"
    by auto
  from assms(2) o consider "c \<in> set out" | "c = CHR 0x0A" | "c \<in> set cs"
    by auto
  then show ?thesis
  proof cases
    case 3
    then obtain k where "k < length cs" "c = cs ! k"
      by (auto simp: in_set_conv_nth)
    with c l show ?thesis by metis
  qed simp_all
qed

lemma draw_rows_chars:
  "c \<in> set (snd (fold (draw_row s) [0..<m] (g, out))) \<Longrightarrow>
   c \<in> set out \<or> c = CHR 0x0A \<or> (\<exists>g'' px py. c = snd (draw_cell g'' s px py))"
proof (induction m arbitrary: c)
  case 0
  then show ?case by simp
next
  case (Suc m)
  obtain g1 o1 where f: "fold (draw_row s) [0..<m] (g, out) = (g1, o1)"
    by (cases "fold (draw_row s) [0..<m] (g, out)")
  obtain g2 o2 where r: "draw_row s m (g1, o1) = (g2, o2)"
    by (cases "draw_row s m (g1, o1)")
  from Suc.prems f r have "c \<in> set o2" by simp
  from draw_row_chars [OF r this]
  consider "c \<in> set o1" | "c = CHR 0x0A" | "\<exists>g'' px. c = snd (draw_cell g'' s px (int m))"
    by blast
  then show ?case
  proof cases
    case 1
    with Suc.IH [of c] f show ?thesis by simp
  next
    case 2
    then show ?thesis by simp
  next
    case 3
    then show ?thesis by blast
  qed
qed

lemma draw_star_chars:
  "c \<in> set (snd (draw_star g s)) \<Longrightarrow>
   c \<in> set clear \<or> c = CHR 0x0A \<or> (\<exists>g'' px py. c = snd (draw_cell g'' s px py))"
  unfolding draw_star_def by (rule draw_rows_chars)

lemma draw_star_no_ejecta:
  assumes "particle_count s = 0"
  shows "CHR ''+'' \<notin> set (snd (draw_star g s))"
proof
  assume "CHR ''+'' \<in> set (snd (draw_star g s))"
  from draw_star_chars [OF this]
  consider "CHR ''+'' \<in> set clear" | "CHR ''+'' = CHR 0x0A"
    | g'' px py where "CHR ''+'' = snd (draw_cell g'' s px py)"
    by blast
  then show False
  proof cases
    case 1
    then show False by (simp add: clear_def)
  next
    case 2
    then show False by simp
  next
    case 3
    with assms base_pixel_chars [of g'' s "cell_dist px py"] show False
      by (auto simp: draw_cell_snd split: if_splits)
  qed
qed

lemma update_particles_none:
  "particle_count s = 0 \<Longrightarrow> update_particles s dt = s"
  by (simp add: update_particles_def)

text \<open>
  C6. The character of a cell is decided in three layers, the later one winning: the
  ejecta symbol if a living particle of the ensemble truncates to the cell, else the
  core symbol if the cell is within the core radius, else what the base layer of the
  state gives. Every cell of the grid that \<^verbatim>\<open>draw_star\<close> prints is such a character
  (the cell in column \<open>cx\<close> and row \<open>cy\<close> is printed after the clear sequence and
  \<open>cy\<close> rows of \<open>WIDTH\<close> characters and a line break). So a cell that holds a living
  particle is printed as \<open>+\<close>, whatever the core and the shock band say.
\<close>

theorem render_priority:
  "snd (draw_cell g s px py)
     = (if \<exists>i<nat (particle_count s). particle_hit s px py i then CHR ''+''
        else if cell_dist px py \<le> core_radius s then CHR ''O''
        else snd (base_pixel g s (cell_dist px py))) \<and>
   (cx < WIDTH \<and> cy < HEIGHT \<longrightarrow>
      (\<exists>g'. snd (draw_star g s) ! (length clear + cy * Suc WIDTH + cx)
                = snd (draw_cell g' s (int cx) (int cy))) \<and>
      (i < nat (particle_count s) \<and> c_trunc (x (particles s ! i)) = int cx \<and>
       c_trunc (y (particles s ! i)) = int cy \<and> life (particles s ! i) > 0 \<longrightarrow>
         snd (draw_star g s) ! (length clear + cy * Suc WIDTH + cx) = CHR ''+''))"
proof (intro conjI impI)
  show "snd (draw_cell g s px py)
     = (if \<exists>i<nat (particle_count s). particle_hit s px py i then CHR ''+''
        else if cell_dist px py \<le> core_radius s then CHR ''O''
        else snd (base_pixel g s (cell_dist px py)))"
    by (rule draw_cell_snd)
next
  assume "cx < WIDTH \<and> cy < HEIGHT"
  then show "\<exists>g'. snd (draw_star g s) ! (length clear + cy * Suc WIDTH + cx)
                = snd (draw_cell g' s (int cx) (int cy))"
    using draw_star_cell [of cx cy g s] by blast
next
  assume b: "cx < WIDTH \<and> cy < HEIGHT"
    and h: "i < nat (particle_count s) \<and> c_trunc (x (particles s ! i)) = int cx \<and>
       c_trunc (y (particles s ! i)) = int cy \<and> life (particles s ! i) > 0"
  from b obtain g' where "snd (draw_star g s) ! (length clear + cy * Suc WIDTH + cx)
                = snd (draw_cell g' s (int cx) (int cy))"
    using draw_star_cell [of cx cy g s] by blast
  moreover from h have "\<exists>i<nat (particle_count s). particle_hit s (int cx) (int cy) i"
    by (auto simp: particle_hit_def Let_def)
  ultimately show "snd (draw_star g s) ! (length clear + cy * Suc WIDTH + cx) = CHR ''+''"
    by (simp add: draw_cell_snd)
qed

theorem render_priority_witness:
  "cell_dist 47 16 \<le> core_radius overlap_star \<and>
   cell_dist 47 16 \<le> explosion_radius overlap_star \<and>
   cell_dist 47 16 \<ge> explosion_radius overlap_star - 1.6 \<and>
   snd (draw_star (\<lambda>n. 0) overlap_star) ! (length clear + 16 * Suc WIDTH + 47) = CHR ''+''"
proof -
  have "c_trunc (47.5 :: real) = 47" "c_trunc (16.2 :: real) = 16"
    by (simp_all add: c_trunc_def) 
  then show ?thesis
    using render_priority [of "\<lambda>n. 0" overlap_star 47 16 47 16 0]
    by (simp add: overlap_star_def MAX_PARTICLES_def WIDTH_def HEIGHT_def cell_dist_eq)
qed

subsection \<open>The distance in the tests of the renderer\<close>

lemma draw_cell_tests:
  assumes "\<not> (\<exists>i<nat (particle_count s). particle_hit s px py i)"
  shows "snd (draw_cell g s px py) =
       (if cell_dist px py \<le> core_radius s then CHR ''O''
        else if state s = GIANT then
          (if cell_dist px py \<le> radius s then CHR ''#'' else CHR '' '')
        else if state s = COLLAPSE then
          (if cell_dist px py \<le> radius s then CHR ''@'' else CHR '' '')
        else if state s = BOUNCE then
          (if radius s - 1.5 \<le> cell_dist px py \<and> cell_dist px py \<le> radius s
           then CHR ''*'' else CHR '' '')
        else if state s = EXPLOSION then
          (if explosion_radius s - 1.6 \<le> cell_dist px py \<and> cell_dist px py \<le> explosion_radius s
           then CHR ''*'' else CHR '' '')
        else if state s = NEBULA then
          (if cell_dist px py \<le> explosion_radius s \<and> g 0 mod 12 = 0
           then CHR ''.'' else CHR '' '')
        else CHR '' '')"
  using assms
  by (simp add: draw_cell_snd base_pixel_def rand_def Let_def)

text \<open>
  C7. The distance of a cell is the square root of the squared horizontal offset plus
  the square of 1.5 times the vertical offset: the cell \<open>k\<close> columns beside the centre
  is at distance \<open>k\<close>, the cell \<open>k\<close> rows away from it is at distance \<open>1.5 * k\<close>, which
  is strictly more for every \<open>k > 0\<close>. Every geometric test of the renderer compares this
  one distance: where no particle is drawn, a cell shows the core if the distance is at
  most \<open>core_radius\<close>, else the envelope of the giant or of the collapse if it is at most
  \<open>radius\<close>, the shock of the bounce if it is between \<open>radius - 1.5\<close> and \<open>radius\<close>, the
  shock of the explosion if it is between \<open>explosion_radius - 1.6\<close> and
  \<open>explosion_radius\<close>, the dust of the nebula if it is at most \<open>explosion_radius\<close> and the
  draw succeeds, and a blank otherwise. So two cells at the same distance get the same
  character.
\<close>

theorem metric_anisotropic:
  "cell_dist px py
     = sqrt ((real_of_int px - real WIDTH / 2)\<^sup>2 + ((real_of_int py - real HEIGHT / 2) * 1.5)\<^sup>2) \<and>
   (0 < k \<longrightarrow>
      cell_dist (int (WIDTH div 2) + k) (int (HEIGHT div 2)) = real_of_int k \<and>
      cell_dist (int (WIDTH div 2)) (int (HEIGHT div 2) + k) = 1.5 * real_of_int k \<and>
      cell_dist (int (WIDTH div 2) + k) (int (HEIGHT div 2))
        < cell_dist (int (WIDTH div 2)) (int (HEIGHT div 2) + k)) \<and>
   (\<not> (\<exists>i<nat (particle_count s). particle_hit s px py i) \<longrightarrow>
      snd (draw_cell g s px py) =
       (if cell_dist px py \<le> core_radius s then CHR ''O''
        else if state s = GIANT then
          (if cell_dist px py \<le> radius s then CHR ''#'' else CHR '' '')
        else if state s = COLLAPSE then
          (if cell_dist px py \<le> radius s then CHR ''@'' else CHR '' '')
        else if state s = BOUNCE then
          (if radius s - 1.5 \<le> cell_dist px py \<and> cell_dist px py \<le> radius s
           then CHR ''*'' else CHR '' '')
        else if state s = EXPLOSION then
          (if explosion_radius s - 1.6 \<le> cell_dist px py \<and> cell_dist px py \<le> explosion_radius s
           then CHR ''*'' else CHR '' '')
        else if state s = NEBULA then
          (if cell_dist px py \<le> explosion_radius s \<and> g 0 mod 12 = 0
           then CHR ''.'' else CHR '' '')
        else CHR '' '')) \<and>
   (particle_count s \<le> 0 \<and> cell_dist px py = cell_dist qx qy \<longrightarrow>
      draw_cell g s px py = draw_cell g s qx qy)"
proof (intro conjI impI)
  show "cell_dist px py
     = sqrt ((real_of_int px - real WIDTH / 2)\<^sup>2 + ((real_of_int py - real HEIGHT / 2) * 1.5)\<^sup>2)"
    by (simp add: cell_dist_def Let_def power2_eq_square)
next
  assume k: "0 < k"
  then show "cell_dist (int (WIDTH div 2) + k) (int (HEIGHT div 2)) = real_of_int k"
    and "cell_dist (int (WIDTH div 2)) (int (HEIGHT div 2) + k) = 1.5 * real_of_int k"
    and "cell_dist (int (WIDTH div 2) + k) (int (HEIGHT div 2))
        < cell_dist (int (WIDTH div 2)) (int (HEIGHT div 2) + k)"
    by (simp_all add: cell_dist_eq WIDTH_def HEIGHT_def real_sqrt_mult)
next
  assume "\<not> (\<exists>i<nat (particle_count s). particle_hit s px py i)"
  then show "snd (draw_cell g s px py) =
       (if cell_dist px py \<le> core_radius s then CHR ''O''
        else if state s = GIANT then
          (if cell_dist px py \<le> radius s then CHR ''#'' else CHR '' '')
        else if state s = COLLAPSE then
          (if cell_dist px py \<le> radius s then CHR ''@'' else CHR '' '')
        else if state s = BOUNCE then
          (if radius s - 1.5 \<le> cell_dist px py \<and> cell_dist px py \<le> radius s
           then CHR ''*'' else CHR '' '')
        else if state s = EXPLOSION then
          (if explosion_radius s - 1.6 \<le> cell_dist px py \<and> cell_dist px py \<le> explosion_radius s
           then CHR ''*'' else CHR '' '')
        else if state s = NEBULA then
          (if cell_dist px py \<le> explosion_radius s \<and> g 0 mod 12 = 0
           then CHR ''.'' else CHR '' '')
        else CHR '' '')"
    by (rule draw_cell_tests)
next
  assume "particle_count s \<le> 0 \<and> cell_dist px py = cell_dist qx qy"
  then show "draw_cell g s px py = draw_cell g s qx qy"
    by (simp add: draw_cell_def Let_def particle_pixel_none split: prod.splits)
qed

theorem metric_anisotropic_witness:
  "cell_dist 52 16 = 7 \<and> cell_dist 45 23 = 10.5 \<and> cell_dist 52 16 < cell_dist 45 23 \<and>
   snd (draw_cell (\<lambda>n. 0) (init_star (replicate MAX_PARTICLES blank_particle) 0) 52 16) = CHR ''#'' \<and>
   snd (draw_cell (\<lambda>n. 0) (init_star (replicate MAX_PARTICLES blank_particle) 0) 45 23) = CHR '' '' \<and>
   cell_dist 48 16 = cell_dist 45 18 \<and>
   draw_cell (\<lambda>n. 0) (init_star (replicate MAX_PARTICLES blank_particle) 0) 48 16
     = draw_cell (\<lambda>n. 0) (init_star (replicate MAX_PARTICLES blank_particle) 0) 45 18"
proof -
  let ?s = "init_star (replicate MAX_PARTICLES blank_particle) 0"
  have e: "cell_dist 48 16 = cell_dist 45 18"
    by (simp add: cell_dist_eq)
  have p: "particle_count ?s \<le> 0" "\<not> (\<exists>i<nat (particle_count ?s). particle_hit ?s px py i)" for px py
    by (simp_all add: init_star_def)
  have f: "radius ?s = 9" "core_radius ?s = 0" "state ?s = GIANT"
    by (simp_all add: init_star_def)
  note t = metric_anisotropic
  have d: "cell_dist 52 16 = 7" "cell_dist 45 23 = 10.5"
    using t [of 52 16 7 ?s "\<lambda>n. 0" 45 18] by (simp_all add: WIDTH_def HEIGHT_def)
  have "snd (draw_cell (\<lambda>n. 0) ?s 52 16) = CHR ''#''"
    using t [of 52 16 7 ?s "\<lambda>n. 0" 45 18] p(2) [of 52 16] by (simp add: d f)
  moreover have "snd (draw_cell (\<lambda>n. 0) ?s 45 23) = CHR '' ''"
    using t [of 45 23 7 ?s "\<lambda>n. 0" 45 18] p(2) [of 45 23] by (simp add: d f)
  moreover have "draw_cell (\<lambda>n. 0) ?s 48 16 = draw_cell (\<lambda>n. 0) ?s 45 18"
    using t [of 48 16 3 ?s "\<lambda>n. 0" 45 18] e p(1) by simp
  ultimately show ?thesis using d e by simp
qed

subsection \<open>The phases of a run of main\<close>

lemma main_loop_0: "main_loop 0 g ps dn = init_star ps dn"
  by (simp add: main_loop_def)

lemma main_loop_Suc:
  "\<exists>g'. main_loop (Suc n) g ps dn = snd (update_star g' (main_loop n g ps dn) frame_dt)"
proof -
  obtain g1 s1 where a: "(main_step ^^ n) (g, init_star ps dn) = (g1, s1)"
    by (cases "(main_step ^^ n) (g, init_star ps dn)")
  have "main_loop (Suc n) g ps dn = snd (update_star g1 s1 frame_dt)"
    by (simp add: main_loop_def a main_step_def Let_def split: prod.splits)
  with a show ?thesis
    by (auto simp: main_loop_def)
qed

lemma main_loop_reachable:
  "length ps = MAX_PARTICLES \<Longrightarrow> reachable (main_loop n g ps dn)"
proof (induction n)
  case 0
  then show ?case by (simp add: main_loop_0 reach_init)
next
  case (Suc n)
  from main_loop_Suc [of n g ps dn] obtain g' where
    "main_loop (Suc n) g ps dn = snd (update_star g' (main_loop n g ps dn) frame_dt)" ..
  moreover have "0 < frame_dt" by (simp add: frame_dt_def FPS_def)
  ultimately show ?case using Suc by (simp add: reach_step)
qed

lemma giant_phase:
  assumes ch: "\<And>k. \<exists>g. L (Suc k) = snd (update_star g (L k) frame_dt)"
    and "state (L a) = GIANT" and "time (L a) = 0"
  shows "j \<le> 150 \<Longrightarrow> state (L (a + j)) = GIANT \<and> time (L (a + j)) = real j / 30"
proof (induction j)
  case 0
  with assms show ?case by simp
next
  case (Suc j)
  then have st: "state (L (a + j)) = GIANT" and t: "time (L (a + j)) = real j / 30"
    and j: "real j + 1 \<le> 150"
    by simp_all
  from ch [of "a + j"] obtain g where "L (Suc (a + j)) = snd (update_star g (L (a + j)) frame_dt)" ..
  with st t j show ?case
    by (simp add: step_state step_time frame_dt_def FPS_def state_defs add_divide_distrib)
qed

lemma giant_end:
  assumes ch: "\<And>k. \<exists>g. L (Suc k) = snd (update_star g (L k) frame_dt)"
    and "state (L a) = GIANT" and "time (L a) = 0"
  shows "state (L (a + 151)) = COLLAPSE \<and> velocity (L (a + 151)) = 0 \<and>
         radius (L (a + 151)) = 9 + sin (151 / 10) * 1.5"
proof -
  from giant_phase [OF assms, of 150]
  have st: "state (L (a + 150)) = GIANT" and t: "time (L (a + 150)) = 5"
    by simp_all
  from ch [of "a + 150"] obtain g where "L (Suc (a + 150)) = snd (update_star g (L (a + 150)) frame_dt)" ..
  moreover have "Suc (a + 150) = a + 151" by simp
  ultimately have "L (a + 151) = snd (update_star g (L (a + 150)) frame_dt)" by simp
  with st t show ?thesis
    by (simp add: step_state step_velocity step_radius frame_dt_def FPS_def state_defs)
qed

lemma collapse_phase:
  assumes ch: "\<And>k. \<exists>g. L (Suc k) = snd (update_star g (L k) frame_dt)"
    and "state (L a) = COLLAPSE" and "velocity (L a) = 0" and "radius (L a) = R"
  shows "\<forall>i<j. 3 \<le> R - real (i * (i + 1)) / 45 \<Longrightarrow>
         velocity (L (a + j)) = 4 * real j / 3 \<and>
         radius (L (a + j)) = R - real (j * (j + 1)) / 45 \<and>
         state (L (a + j)) = (if 0 < j \<and> R - real (j * (j + 1)) / 45 < 3 then BOUNCE else COLLAPSE) \<and>
         (0 < j \<and> R - real (j * (j + 1)) / 45 < 3 \<longrightarrow> time (L (a + j)) = 0)"
proof (induction j)
  case 0
  with assms show ?case by simp
next
  case (Suc j)
  then have pre: "\<forall>i<j. 3 \<le> R - real (i * (i + 1)) / 45" and rj: "3 \<le> R - real (j * (j + 1)) / 45"
    by simp_all
  from Suc.IH [OF pre] rj
  have v: "velocity (L (a + j)) = 4 * real j / 3"
    and r: "radius (L (a + j)) = R - real (j * (j + 1)) / 45"
    and st: "state (L (a + j)) = COLLAPSE"
    by simp_all
  from ch [of "a + j"] obtain g where l: "L (Suc (a + j)) = snd (update_star g (L (a + j)) frame_dt)"
    by auto
  have v': "velocity (L (Suc (a + j))) = velocity (L (a + j)) + 40 * frame_dt"
    by (simp add: l step_velocity st state_defs)
  have r': "radius (L (Suc (a + j)))
              = radius (L (a + j)) - (velocity (L (a + j)) + 40 * frame_dt) * frame_dt"
    by (simp add: l step_radius st state_defs)
  have st': "state (L (Suc (a + j))) = (if radius (L (Suc (a + j))) < 3 then BOUNCE else COLLAPSE)"
    unfolding r' by (simp add: l step_state st state_defs)
  have t': "radius (L (Suc (a + j))) < 3 \<longrightarrow> time (L (Suc (a + j))) = 0"
    using st' by (simp add: l step_time st state_defs)
  have vv: "velocity (L (Suc (a + j))) = 4 * real (Suc j) / 3"
    by (simp add: v' v frame_dt_def FPS_def)
  have rr: "radius (L (Suc (a + j))) = R - real (Suc j * (Suc j + 1)) / 45"
    by (simp add: r' v r frame_dt_def FPS_def field_simps)
  from st' t' vv rr show ?case
    by simp
qed

lemma collapse_ticks:
  assumes "7.5 \<le> R" and "R \<le> 10.5"
  shows "\<exists>j. 14 \<le> j \<and> j \<le> 18 \<and> (\<forall>i<j. 3 \<le> R - real (i * (i + 1)) / 45) \<and>
             R - real (j * (j + 1)) / 45 < 3"
proof -
  have mono: "real (i * (i + 1)) \<le> real (m * (m + 1))" if "i < Suc m" for i m :: nat
  proof -
    from that have "i \<le> m" "i + 1 \<le> m + 1" by simp_all
    then have "i * (i + 1) \<le> m * (m + 1)" by (rule mult_le_mono)
    then show ?thesis by (simp only: of_nat_le_iff)
  qed
  have pick: "\<exists>j. 14 \<le> j \<and> j \<le> 18 \<and> (\<forall>i<j. 3 \<le> R - real (i * (i + 1)) / 45) \<and>
             R - real (j * (j + 1)) / 45 < 3"
    if lo: "3 \<le> R - real (m * (m + 1)) / 45" and hi: "R - real (Suc m * (Suc m + 1)) / 45 < 3"
      and m: "13 \<le> m" "m \<le> 17" for m
  proof -
    have "\<forall>i<Suc m. 3 \<le> R - real (i * (i + 1)) / 45"
    proof (intro allI impI)
      fix i assume "i < Suc m"
      from mono [OF this] have "real (i * (i + 1)) / 45 \<le> real (m * (m + 1)) / 45"
        by (simp only: divide_right_mono)
      with lo show "3 \<le> R - real (i * (i + 1)) / 45" by linarith
    qed
    with hi m show ?thesis
      by (intro exI [of _ "Suc m"]) simp
  qed
  consider "R - 3 < 210 / 45" | "210 / 45 \<le> R - 3" "R - 3 < 240 / 45"
    | "240 / 45 \<le> R - 3" "R - 3 < 272 / 45" | "272 / 45 \<le> R - 3" "R - 3 < 306 / 45"
    | "306 / 45 \<le> R - 3"
    by linarith
  then show ?thesis
  proof cases
    case 1
    with assms show ?thesis by (intro pick [of 13]) simp_all
  next
    case 2
    then show ?thesis by (intro pick [of 14]) simp_all
  next
    case 3
    then show ?thesis by (intro pick [of 15]) simp_all
  next
    case 4
    then show ?thesis by (intro pick [of 16]) simp_all
  next
    case 5
    with assms show ?thesis by (intro pick [of 17]) simp_all
  qed
qed

lemma bounce_phase:
  assumes ch: "\<And>k. \<exists>g. L (Suc k) = snd (update_star g (L k) frame_dt)"
    and "state (L a) = BOUNCE" and "time (L a) = 0"
  shows "j \<le> 24 \<Longrightarrow> state (L (a + j)) = BOUNCE \<and> time (L (a + j)) = real j / 30"
proof (induction j)
  case 0
  with assms show ?case by simp
next
  case (Suc j)
  then have st: "state (L (a + j)) = BOUNCE" and t: "time (L (a + j)) = real j / 30"
    and j: "real j + 1 \<le> 24"
    by simp_all
  from ch [of "a + j"] obtain g where "L (Suc (a + j)) = snd (update_star g (L (a + j)) frame_dt)" ..
  with st t j show ?case
    by (simp add: step_state step_time frame_dt_def FPS_def state_defs add_divide_distrib)
qed

lemma bounce_end:
  assumes ch: "\<And>k. \<exists>g. L (Suc k) = snd (update_star g (L k) frame_dt)"
    and "state (L a) = BOUNCE" and "time (L a) = 0"
  shows "state (L (a + 25)) = EXPLOSION \<and> explosion_radius (L (a + 25)) = 3"
proof -
  from bounce_phase [OF assms, of 24]
  have st: "state (L (a + 24)) = BOUNCE" and t: "time (L (a + 24)) = 24 / 30"
    by simp_all
  from ch [of "a + 24"] obtain g where "L (Suc (a + 24)) = snd (update_star g (L (a + 24)) frame_dt)" ..
  moreover have "Suc (a + 24) = a + 25" by simp
  ultimately have "L (a + 25) = snd (update_star g (L (a + 24)) frame_dt)" by simp
  with st t show ?thesis
    by (simp add: step_state step_explosion_radius frame_dt_def FPS_def state_defs)
qed

lemma explosion_phase:
  assumes ch: "\<And>k. \<exists>g. L (Suc k) = snd (update_star g (L k) frame_dt)"
    and "state (L a) = EXPLOSION" and "explosion_radius (L a) = 3"
  shows "j \<le> 29 \<Longrightarrow> state (L (a + j)) = EXPLOSION \<and> explosion_radius (L (a + j)) = 3 + real j"
proof (induction j)
  case 0
  with assms show ?case by simp
next
  case (Suc j)
  then have st: "state (L (a + j)) = EXPLOSION" and t: "explosion_radius (L (a + j)) = 3 + real j"
    and j: "real j + 1 \<le> 29"
    by simp_all
  from ch [of "a + j"] obtain g where "L (Suc (a + j)) = snd (update_star g (L (a + j)) frame_dt)" ..
  with st t j show ?case
    by (simp add: step_state step_explosion_radius frame_dt_def FPS_def state_defs)
qed

lemma explosion_end:
  assumes ch: "\<And>k. \<exists>g. L (Suc k) = snd (update_star g (L k) frame_dt)"
    and "state (L a) = EXPLOSION" and "explosion_radius (L a) = 3"
  shows "state (L (a + 30)) = NEBULA \<and> explosion_radius (L (a + 30)) = 33"
proof -
  from explosion_phase [OF assms, of 29]
  have st: "state (L (a + 29)) = EXPLOSION" and t: "explosion_radius (L (a + 29)) = 32"
    by simp_all
  from ch [of "a + 29"] obtain g where "L (Suc (a + 29)) = snd (update_star g (L (a + 29)) frame_dt)" ..
  moreover have "Suc (a + 29) = a + 30" by simp
  ultimately have "L (a + 30) = snd (update_star g (L (a + 29)) frame_dt)" by simp
  with st t show ?thesis
    by (simp add: step_state step_explosion_radius frame_dt_def FPS_def state_defs)
qed

lemma nebula_phase:
  assumes ch: "\<And>k. \<exists>g. L (Suc k) = snd (update_star g (L k) frame_dt)"
    and "state (L a) = NEBULA" and "explosion_radius (L a) = 33"
  shows "j \<le> 45 \<Longrightarrow> state (L (a + j)) = NEBULA \<and> explosion_radius (L (a + j)) = 33 + real j / 5"
proof (induction j)
  case 0
  with assms show ?case by simp
next
  case (Suc j)
  then have st: "state (L (a + j)) = NEBULA" and t: "explosion_radius (L (a + j)) = 33 + real j / 5"
    and j: "real j + 1 \<le> 45"
    by simp_all
  from ch [of "a + j"] obtain g where "L (Suc (a + j)) = snd (update_star g (L (a + j)) frame_dt)" ..
  with st t j show ?case
    by (simp add: step_state step_explosion_radius frame_dt_def FPS_def state_defs add_divide_distrib)
qed

lemma nebula_end:
  assumes ch: "\<And>k. \<exists>g. L (Suc k) = snd (update_star g (L k) frame_dt)"
    and "state (L a) = NEBULA" and "explosion_radius (L a) = 33"
  shows "state (L (a + 46)) = GIANT \<and> radius (L (a + 46)) = 9 \<and> time (L (a + 46)) = 0 \<and>
         explosion_radius (L (a + 46)) = 42 + 1 / 5"
proof -
  from nebula_phase [OF assms, of 45]
  have st: "state (L (a + 45)) = NEBULA" and t: "explosion_radius (L (a + 45)) = 42"
    by simp_all
  from ch [of "a + 45"] obtain g where "L (Suc (a + 45)) = snd (update_star g (L (a + 45)) frame_dt)" ..
  moreover have "Suc (a + 45) = a + 46" by simp
  ultimately have "L (a + 46) = snd (update_star g (L (a + 45)) frame_dt)" by simp
  with st t show ?thesis
    by (simp add: step_state step_explosion_radius step_radius step_time frame_dt_def FPS_def state_defs)
qed

lemma cycle_chain:
  assumes ch: "\<And>k. \<exists>g. L (Suc k) = snd (update_star g (L k) frame_dt)"
    and g0: "state (L 0) = GIANT" and t0: "time (L 0) = 0"
  shows "\<exists>b. 165 \<le> b \<and> b \<le> 169 \<and>
           (\<forall>k<151. state (L k) = GIANT) \<and>
           (\<forall>k. 151 \<le> k \<and> k < b \<longrightarrow> state (L k) = COLLAPSE) \<and>
           (\<forall>k. b \<le> k \<and> k < b + 25 \<longrightarrow> state (L k) = BOUNCE) \<and>
           (\<forall>k. b + 25 \<le> k \<and> k < b + 55 \<longrightarrow> state (L k) = EXPLOSION) \<and>
           (\<forall>k. b + 55 \<le> k \<and> k < b + 101 \<longrightarrow> state (L k) = NEBULA) \<and>
           state (L (b + 101)) = GIANT \<and> radius (L (b + 101)) = 9 \<and>
           time (L (b + 101)) = 0 \<and> explosion_radius (L (b + 101)) = 42 + 1 / 5"
proof -
  define R where "R = 9 + sin (151 / 10 :: real) * 1.5"
  have Rb: "7.5 \<le> R" "R \<le> 10.5"
    using sin_ge_minus_one [of "151 / 10 :: real"] sin_le_one [of "151 / 10 :: real"]
    unfolding R_def by linarith+
  have giant: "\<forall>k<151. state (L k) = GIANT"
    using giant_phase [where L = L and a = 0, OF ch g0 t0] by simp
  have c0: "state (L 151) = COLLAPSE" "velocity (L 151) = 0" "radius (L 151) = R"
    using giant_end [where L = L and a = 0, OF ch g0 t0] by (simp_all add: R_def)
  from collapse_ticks [OF Rb] obtain j0 where j0: "14 \<le> j0" "j0 \<le> 18"
    and before: "\<forall>i<j0. 3 \<le> R - real (i * (i + 1)) / 45"
    and at: "R - real (j0 * (j0 + 1)) / 45 < 3"
    by blast
  define b where "b = 151 + j0"
  have collapse: "\<forall>k. 151 \<le> k \<and> k < b \<longrightarrow> state (L k) = COLLAPSE"
  proof (intro allI impI)
    fix k assume k: "151 \<le> k \<and> k < b"
    define j where "j = k - 151"
    with k have kj: "k = 151 + j" and j: "j < j0" by (auto simp: b_def)
    from j before have "\<forall>i<j. 3 \<le> R - real (i * (i + 1)) / 45" by simp
    moreover from j before have "3 \<le> R - real (j * (j + 1)) / 45" by blast
    ultimately show "state (L k) = COLLAPSE"
      using collapse_phase [where L = L and a = 151 and j = j, OF ch c0] by (simp add: kj)
  qed
  from collapse_phase [where L = L and a = 151, OF ch c0 before] at j0
  have b0: "state (L b) = BOUNCE" "time (L b) = 0"
    by (simp_all add: b_def)
  have bounce: "\<forall>k. b \<le> k \<and> k < b + 25 \<longrightarrow> state (L k) = BOUNCE"
  proof (intro allI impI)
    fix k assume k: "b \<le> k \<and> k < b + 25"
    then have "k = b + (k - b)" "k - b \<le> 24" by auto
    with bounce_phase [where L = L and a = b, OF ch b0, of "k - b"] show "state (L k) = BOUNCE" by simp
  qed
  from bounce_end [where L = L and a = b, OF ch b0]
  have e0: "state (L (b + 25)) = EXPLOSION" "explosion_radius (L (b + 25)) = 3"
    by simp_all
  have explosion: "\<forall>k. b + 25 \<le> k \<and> k < b + 55 \<longrightarrow> state (L k) = EXPLOSION"
  proof (intro allI impI)
    fix k assume k: "b + 25 \<le> k \<and> k < b + 55"
    then have "k = b + 25 + (k - (b + 25))" "k - (b + 25) \<le> 29" by auto
    with explosion_phase [where L = L and a = "b + 25", OF ch e0, of "k - (b + 25)"]
    show "state (L k) = EXPLOSION" by simp
  qed
  from explosion_end [where L = L and a = "b + 25", OF ch e0]
  have n0: "state (L (b + 55)) = NEBULA" "explosion_radius (L (b + 55)) = 33"
    by (simp_all add: add.assoc)
  have nebula: "\<forall>k. b + 55 \<le> k \<and> k < b + 101 \<longrightarrow> state (L k) = NEBULA"
  proof (intro allI impI)
    fix k assume k: "b + 55 \<le> k \<and> k < b + 101"
    then have "k = b + 55 + (k - (b + 55))" "k - (b + 55) \<le> 45" by auto
    with nebula_phase [where L = L and a = "b + 55", OF ch n0, of "k - (b + 55)"]
    show "state (L k) = NEBULA" by simp
  qed
  from nebula_end [where L = L and a = "b + 55", OF ch n0]
  have fin: "state (L (b + 101)) = GIANT \<and> radius (L (b + 101)) = 9 \<and>
           time (L (b + 101)) = 0 \<and> explosion_radius (L (b + 101)) = 42 + 1 / 5"
    by (simp add: add.assoc)
  from j0 have "165 \<le> b" "b \<le> 169" by (simp_all add: b_def)
  with giant collapse bounce explosion nebula fin show ?thesis
    by blast
qed

lemma step_order:
  "state (snd (update_star g s dt)) = state s \<or>
   (state s, state (snd (update_star g s dt)))
     \<in> {(GIANT, COLLAPSE), (COLLAPSE, BOUNCE), (BOUNCE, EXPLOSION), (EXPLOSION, NEBULA),
        (NEBULA, GIANT)}"
  by (simp add: step_state)

lemma main_loop_cycle:
  "\<exists>b. 165 \<le> b \<and> b \<le> 169 \<and>
           (\<forall>k<151. state (main_loop k g ps dn) = GIANT) \<and>
           (\<forall>k. 151 \<le> k \<and> k < b \<longrightarrow> state (main_loop k g ps dn) = COLLAPSE) \<and>
           (\<forall>k. b \<le> k \<and> k < b + 25 \<longrightarrow> state (main_loop k g ps dn) = BOUNCE) \<and>
           (\<forall>k. b + 25 \<le> k \<and> k < b + 55 \<longrightarrow> state (main_loop k g ps dn) = EXPLOSION) \<and>
           (\<forall>k. b + 55 \<le> k \<and> k < b + 101 \<longrightarrow> state (main_loop k g ps dn) = NEBULA) \<and>
           state (main_loop (b + 101) g ps dn) = GIANT \<and>
           radius (main_loop (b + 101) g ps dn) = 9 \<and>
           time (main_loop (b + 101) g ps dn) = 0 \<and>
           explosion_radius (main_loop (b + 101) g ps dn) = 42 + 1 / 5"
  by (rule cycle_chain [where L = "\<lambda>k. main_loop k g ps dn"])
     (simp_all add: main_loop_Suc main_loop_0 init_star_def)

subsection \<open>States of main at the collapse and at the restart\<close>

lemma main_loop_151:
  "state (main_loop 151 g ps dn) = COLLAPSE \<and> velocity (main_loop 151 g ps dn) = 0"
  using giant_end [where L = "\<lambda>k. main_loop k g ps dn" and a = 0]
  by (simp add: main_loop_Suc main_loop_0 init_star_def)

lemma late_nebula_restart:
  "state late_nebula = NEBULA \<and>
   state (snd (update_star g late_nebula frame_dt)) = GIANT \<and>
   core_radius (snd (update_star g late_nebula frame_dt)) = 2 \<and>
   explosion_radius (snd (update_star g late_nebula frame_dt)) = 42 + 1 / 5"
  by (simp add: step_fields late_nebula_def frame_dt_def FPS_def state_defs)

lemma main_loop_restart:
  assumes "length ps = MAX_PARTICLES"
  shows "\<exists>n. reachable (main_loop (Suc n) g ps dn) \<and>
           state (main_loop n g ps dn) = NEBULA \<and> state (main_loop (Suc n) g ps dn) = GIANT \<and>
           core_radius (main_loop (Suc n) g ps dn) = 2 \<and>
           explosion_radius (main_loop (Suc n) g ps dn) = 42 + 1 / 5"
proof -
  from main_loop_cycle [of g ps dn] obtain b where
    n: "\<forall>k. b + 55 \<le> k \<and> k < b + 101 \<longrightarrow> state (main_loop k g ps dn) = NEBULA"
    and f: "state (main_loop (b + 101) g ps dn) = GIANT"
      "explosion_radius (main_loop (b + 101) g ps dn) = 42 + 1 / 5"
    by blast
  have r: "reachable (main_loop (b + 101) g ps dn)"
    using assms by (rule main_loop_reachable)
  from reachable_inv [OF r] f have "core_radius (main_loop (b + 101) g ps dn) = 2"
    by (auto simp: star_inv_def state_defs MAX_PARTICLES_def split: if_splits)
  moreover from n have "state (main_loop (b + 100) g ps dn) = NEBULA" by simp
  moreover have sb: "Suc (b + 100) = b + 101" by simp
  ultimately have "reachable (main_loop (Suc (b + 100)) g ps dn) \<and>
           state (main_loop (b + 100) g ps dn) = NEBULA \<and>
           state (main_loop (Suc (b + 100)) g ps dn) = GIANT \<and>
           core_radius (main_loop (Suc (b + 100)) g ps dn) = 2 \<and>
           explosion_radius (main_loop (Suc (b + 100)) g ps dn) = 42 + 1 / 5"
    using r f unfolding sb by blast
  then show ?thesis by (rule exI)
qed

subsection \<open>The collapse in binary32\<close>

lemma round_even_of_int [simp]: "round_even (real_of_int n) = n"
  by (simp add: round_even_def)

lemma round_even_ge: "real_of_int n \<le> q \<Longrightarrow> n \<le> round_even q"
proof -
  assume "real_of_int n \<le> q"
  then have "n \<le> \<lfloor>q\<rfloor>" by (simp add: le_floor_iff)
  then show ?thesis by (simp add: round_even_def Let_def)
qed

lemma round_even_le: "q \<le> real_of_int n \<Longrightarrow> round_even q \<le> n"
proof (cases "q = real_of_int n")
  case True
  then show ?thesis by simp
next
  case False
  assume "q \<le> real_of_int n"
  with False have "q < real_of_int n" by simp
  then have "\<lfloor>q\<rfloor> < n" by (simp add: floor_less_iff)
  then show ?thesis by (simp add: round_even_def Let_def)
qed

lemma f32_ulp_pos [simp]: "0 < f32_ulp a"
  by (simp add: f32_ulp_def)

lemma f32_ulp_nonneg [simp]: "0 \<le> f32_ulp a"
  by (simp add: f32_ulp_def)

lemma f32_exp_mono: "0 < a \<Longrightarrow> a \<le> b \<Longrightarrow> f32_exp a \<le> f32_exp b"
proof -
  assume "0 < a" and "a \<le> b"
  then have "log 2 a \<le> log 2 b" by simp
  then have "\<lfloor>log 2 a\<rfloor> \<le> \<lfloor>log 2 b\<rfloor>" by (rule floor_mono)
  then show ?thesis by (simp add: f32_exp_def)
qed

lemma f32_exp_ge: "- 126 \<le> f32_exp a"
  by (simp add: f32_exp_def)

lemma f32_below: "0 < a \<Longrightarrow> a < 2 powr (real_of_int (f32_exp a) + 1)"
proof -
  assume a: "0 < a"
  have "log 2 a < real_of_int \<lfloor>log 2 a\<rfloor> + 1" by linarith
  also have "\<dots> \<le> real_of_int (f32_exp a) + 1" by (simp add: f32_exp_def)
  finally have "2 powr log 2 a < 2 powr (real_of_int (f32_exp a) + 1)"
    by (simp add: powr_less_cancel_iff)
  with a show ?thesis by simp
qed

lemma f32_above: "0 < a \<Longrightarrow> - 126 < f32_exp a \<Longrightarrow> 2 powr real_of_int (f32_exp a) \<le> a"
proof -
  assume a: "0 < a" and n: "- 126 < f32_exp a"
  then have "f32_exp a = \<lfloor>log 2 a\<rfloor>" by (simp add: f32_exp_def max_def split: if_splits)
  then have "real_of_int (f32_exp a) \<le> log 2 a" by simp
  then have "2 powr real_of_int (f32_exp a) \<le> 2 powr log 2 a"
    by (simp add: powr_le_cancel_iff)
  with a show ?thesis by simp
qed

lemma f32_pos_eq:
  "0 < a \<Longrightarrow> f32 a = real_of_int (round_even (a / f32_ulp a)) * f32_ulp a"
  by (simp add: f32_def)

lemma f32_minus: "f32 (- a) = - f32 a"
  by (simp add: f32_def sgn_if)

lemma f32_nonneg: "0 \<le> a \<Longrightarrow> 0 \<le> f32 a"
proof (cases "a = 0")
  case True
  then show ?thesis by (simp add: f32_def)
next
  case False
  assume "0 \<le> a"
  with False have a: "0 < a" by simp
  then have "real_of_int 0 \<le> a / f32_ulp a" by (simp add: less_imp_le)
  then have "0 \<le> round_even (a / f32_ulp a)" by (rule round_even_ge)
  with a show ?thesis by (simp add: f32_pos_eq)
qed

lemma f32_ulp_times:
  "f32_ulp a * 8388608 = 2 powr real_of_int (f32_exp a)"
  "f32_ulp a * 16777216 = 2 powr (real_of_int (f32_exp a) + 1)"
proof -
  have "(8388608::real) = 2 powr 23" "(16777216::real) = 2 powr 24"
    by simp_all
  then show "f32_ulp a * 8388608 = 2 powr real_of_int (f32_exp a)"
    "f32_ulp a * 16777216 = 2 powr (real_of_int (f32_exp a) + 1)"
    by (simp_all only: f32_ulp_def powr_add [symmetric]) (simp_all add: add.commute)
qed

lemma f32_ulp_neq0 [simp]: "f32_ulp a \<noteq> 0"
  by (simp add: f32_ulp_def)

lemma f32_low:
  assumes "0 < a" and "- 126 < f32_exp a"
  shows "2 powr real_of_int (f32_exp a) \<le> f32 a"
proof -
  from f32_above [OF assms] have "f32_ulp a * 8388608 \<le> a"
    by (simp add: f32_ulp_times)
  then have "real_of_int 8388608 \<le> a / f32_ulp a"
    by (simp add: le_divide_eq mult.commute)
  then have "8388608 \<le> round_even (a / f32_ulp a)"
    by (rule round_even_ge)
  then have "real_of_int 8388608 \<le> real_of_int (round_even (a / f32_ulp a))"
    by (simp only: of_int_le_iff)
  then have "8388608 * f32_ulp a \<le> real_of_int (round_even (a / f32_ulp a)) * f32_ulp a"
    by (intro mult_right_mono) simp_all
  with assms(1) show ?thesis
    by (simp add: f32_pos_eq f32_ulp_times [symmetric] mult.commute)
qed

lemma f32_high:
  assumes "0 < a"
  shows "f32 a \<le> 2 powr (real_of_int (f32_exp a) + 1)"
proof -
  from f32_below [OF assms] have "a \<le> f32_ulp a * 16777216"
    by (simp add: f32_ulp_times)
  then have "a / f32_ulp a \<le> real_of_int 16777216"
    by (simp add: divide_le_eq mult.commute)
  then have "round_even (a / f32_ulp a) \<le> 16777216"
    by (rule round_even_le)
  then have "real_of_int (round_even (a / f32_ulp a)) \<le> real_of_int 16777216"
    by (simp only: of_int_le_iff)
  then have "real_of_int (round_even (a / f32_ulp a)) * f32_ulp a \<le> 16777216 * f32_ulp a"
    by (intro mult_right_mono) simp_all
  with assms show ?thesis
    by (simp add: f32_pos_eq f32_ulp_times [symmetric] mult.commute)
qed

lemma f32_lower_pos:
  assumes "is_f32 v" and "0 < v" and "v \<le> z"
  shows "v \<le> f32 z"
proof -
  from assms have z: "0 < z" by simp
  from f32_exp_mono [OF assms(2,3)] consider "f32_exp v = f32_exp z" | "f32_exp v < f32_exp z"
    by linarith
  then show ?thesis
  proof cases
    case 1
    then have u: "f32_ulp v = f32_ulp z" by (simp add: f32_ulp_def)
    define n where "n = round_even (v / f32_ulp v)"
    from assms(1,2) have v: "v = real_of_int n * f32_ulp z"
      by (simp add: is_f32_def f32_pos_eq n_def u [symmetric])
    then have "real_of_int n = v / f32_ulp z" by simp
    also from assms(3) have "\<dots> \<le> z / f32_ulp z"
      by (simp add: divide_right_mono)
    finally have "n \<le> round_even (z / f32_ulp z)" by (rule round_even_ge)
    then have "real_of_int n * f32_ulp z \<le> real_of_int (round_even (z / f32_ulp z)) * f32_ulp z"
      by (intro mult_right_mono) simp_all
    with v z show ?thesis by (simp add: f32_pos_eq)
  next
    case 2
    with f32_exp_ge [of v] have n: "- 126 < f32_exp z" by linarith
    from 2 have "real_of_int (f32_exp v) + 1 \<le> real_of_int (f32_exp z)" by linarith
    then have pw: "2 powr (real_of_int (f32_exp v) + 1) \<le> 2 powr real_of_int (f32_exp z)"
      by simp
    have "f32 v \<le> 2 powr (real_of_int (f32_exp v) + 1)"
      by (rule f32_high [OF assms(2)])
    also note pw
    also have "2 powr real_of_int (f32_exp z) \<le> f32 z"
      by (rule f32_low [OF z n])
    finally show ?thesis using assms(1) by (simp add: is_f32_def)
  qed
qed

lemma f32_upper_pos:
  assumes "is_f32 r" and "0 < z" and "z \<le> r"
  shows "f32 z \<le> r"
proof -
  from assms have r: "0 < r" by simp
  from f32_exp_mono [OF assms(2,3)] consider "f32_exp z = f32_exp r" | "f32_exp z < f32_exp r"
    by linarith
  then show ?thesis
  proof cases
    case 1
    then have u: "f32_ulp z = f32_ulp r" by (simp add: f32_ulp_def)
    define n where "n = round_even (r / f32_ulp r)"
    from assms(1) r have v: "r = real_of_int n * f32_ulp z"
      by (simp add: is_f32_def f32_pos_eq n_def u)
    from assms(3) have "z / f32_ulp z \<le> r / f32_ulp z"
      by (simp add: divide_right_mono)
    also from v have "\<dots> = real_of_int n" by simp
    finally have "round_even (z / f32_ulp z) \<le> n" by (rule round_even_le)
    then have "real_of_int (round_even (z / f32_ulp z)) * f32_ulp z \<le> real_of_int n * f32_ulp z"
      by (intro mult_right_mono) simp_all
    with v assms(2) show ?thesis by (simp add: f32_pos_eq)
  next
    case 2
    with f32_exp_ge [of z] have n: "- 126 < f32_exp r" by linarith
    from 2 have "real_of_int (f32_exp z) + 1 \<le> real_of_int (f32_exp r)" by linarith
    then have pw: "2 powr (real_of_int (f32_exp z) + 1) \<le> 2 powr real_of_int (f32_exp r)"
      by simp
    have "f32 z \<le> 2 powr (real_of_int (f32_exp z) + 1)"
      by (rule f32_high [OF assms(2)])
    also note pw
    also have "2 powr real_of_int (f32_exp r) \<le> f32 r"
      by (rule f32_low [OF r n])
    finally show ?thesis using assms(1) by (simp add: is_f32_def)
  qed
qed


lemma is_f32_minus: "is_f32 v \<Longrightarrow> is_f32 (- v)"
  by (simp add: is_f32_def f32_minus)

lemma f32_lower:
  assumes "is_f32 v" and "v \<le> z"
  shows "v \<le> f32 z"
proof -
  consider "0 < v" | "v \<le> 0" "0 \<le> z" | "v \<le> 0" "z < 0" by linarith
  then show ?thesis
  proof cases
    case 1
    with assms show ?thesis by (simp add: f32_lower_pos)
  next
    case 2
    with f32_nonneg [of z] show ?thesis by simp
  next
    case 3
    with assms have "f32 (- z) \<le> - v"
      by (intro f32_upper_pos is_f32_minus) simp_all
    then show ?thesis by (simp add: f32_minus)
  qed
qed

lemma f32_upper:
  assumes "is_f32 r" and "z \<le> r"
  shows "f32 z \<le> r"
proof -
  from assms have "- r \<le> f32 (- z)"
    by (intro f32_lower is_f32_minus) simp_all
  then show ?thesis by (simp add: f32_minus)
qed

lemma f32_exp_eq:
  assumes "2 powr real_of_int e \<le> a" and "a < 2 powr (real_of_int e + 1)" and "- 126 \<le> e"
  shows "f32_exp a = e"
proof -
  have p: "0 < a"
    using assms(1) powr_gt_zero [of 2 "real_of_int e"] by linarith
  from assms(1) p have "real_of_int e \<le> log 2 a"
    by (simp add: le_log_iff)
  moreover from assms(2) p have "log 2 a < real_of_int e + 1"
    by (simp add: log_less_iff)
  ultimately have "\<lfloor>log 2 a\<rfloor> = e"
    by (simp add: floor_unique)
  with assms(3) show ?thesis by (simp add: f32_exp_def)
qed

lemma two_powr_int: "0 \<le> n \<Longrightarrow> 2 powr real_of_int n = real_of_int (2 ^ nat n)"
  using powr_realpow [of 2 "nat n"] by simp

lemma is_f32_scaled:
  assumes "0 \<le> m" and "m < 16777216" and "- 149 \<le> j"
  shows "is_f32 (real_of_int m * 2 powr real_of_int j)"
proof (cases "m = 0")
  case True
  then show ?thesis by (simp add: is_f32_def f32_def)
next
  case False
  define a where "a = real_of_int m * 2 powr real_of_int j"
  from False assms(1) have m: "0 < m" by simp
  then have a: "0 < a" by (simp add: a_def)
  have "a < 16777216 * 2 powr real_of_int j"
    using assms(2) by (simp add: a_def)
  also have "\<dots> = 2 powr (real_of_int j + 24)"
    by (simp add: powr_add)
  finally have "log 2 a < real_of_int j + 24"
    using a by (simp add: log_less_iff)
  then have "\<lfloor>log 2 a\<rfloor> < j + 24"
    by (simp add: floor_less_iff)
  with assms(3) have e: "0 \<le> j - f32_exp a + 23"
    by (simp add: f32_exp_def)
  have "a / f32_ulp a = real_of_int m * 2 powr (real_of_int j - (real_of_int (f32_exp a) - 23))"
    by (simp add: a_def f32_ulp_def powr_diff)
  also have "\<dots> = real_of_int m * 2 powr real_of_int (j - f32_exp a + 23)"
    by (simp add: algebra_simps)
  also have "\<dots> = real_of_int m * real_of_int (2 ^ nat (j - f32_exp a + 23))"
    using e by (simp only: two_powr_int)
  also have "\<dots> = real_of_int (m * 2 ^ nat (j - f32_exp a + 23))"
    by simp
  finally have q: "a / f32_ulp a = real_of_int (m * 2 ^ nat (j - f32_exp a + 23))" .
  have "f32 a = real_of_int (round_even (a / f32_ulp a)) * f32_ulp a"
    using a by (rule f32_pos_eq)
  also have "\<dots> = a / f32_ulp a * f32_ulp a"
    by (simp only: q round_even_of_int)
  also have "\<dots> = a" by simp
  finally show ?thesis by (simp add: is_f32_def a_def)
qed

lemma f32_strict_up:
  assumes "is_f32 v" and "0 \<le> v" and "- 149 \<le> j" and "v < 8388608 * 2 powr real_of_int j"
    and "2 powr real_of_int j \<le> a"
  shows "v < f32 (v + a)"
proof -
  define g where "g = 2 powr real_of_int j"
  define m where "m = \<lfloor>v / g\<rfloor> + 1"
  have g: "0 < g" by (simp add: g_def)
  from assms(2) g have "0 \<le> \<lfloor>v / g\<rfloor>" by simp
  then have m0: "0 \<le> m" by (simp add: m_def)
  from assms(4) g have "v / g < 8388608" by (simp add: g_def divide_less_eq mult.commute)
  then have "\<lfloor>v / g\<rfloor> < 8388608" by (simp add: floor_less_iff)
  then have m1: "m < 16777216" by (simp add: m_def)
  have "v / g < real_of_int m" unfolding m_def by linarith
  with g have lt: "v < real_of_int m * g" by (simp add: divide_less_eq)
  have "real_of_int m \<le> v / g + 1" unfolding m_def by linarith
  then have "real_of_int m * g \<le> (v / g + 1) * g"
    using g by (intro mult_right_mono) simp_all
  also have "\<dots> = v + g" using g by (simp add: algebra_simps)
  also have "\<dots> \<le> v + a" using assms(5) by (simp add: g_def)
  finally have le: "real_of_int m * g \<le> v + a" .
  have "is_f32 (real_of_int m * g)"
    unfolding g_def using m0 m1 assms(3) by (rule is_f32_scaled)
  from f32_lower [OF this le] lt show ?thesis by linarith
qed

lemma f32_strict_down:
  assumes "is_f32 r" and "0 < r" and "- 149 \<le> j" and "r < 8388608 * 2 powr real_of_int j"
    and "2 powr real_of_int j \<le> c"
  shows "f32 (r - c) < r"
proof -
  define g where "g = 2 powr real_of_int j"
  define m where "m = \<lceil>r / g\<rceil> - 1"
  have g: "0 < g" by (simp add: g_def)
  from assms(2) g have "0 < r / g" by simp
  then have "0 < \<lceil>r / g\<rceil>" by (simp add: less_ceiling_iff)
  then have m0: "0 \<le> m" by (simp add: m_def)
  from assms(4) g have "r / g \<le> 8388608" by (simp add: g_def divide_le_eq mult.commute)
  then have "\<lceil>r / g\<rceil> \<le> 8388608" by (simp add: ceiling_le_iff)
  then have m1: "m < 16777216" by (simp add: m_def)
  have "real_of_int m < r / g" unfolding m_def by linarith
  with g have lt: "real_of_int m * g < r" by (simp add: less_divide_eq)
  have "r / g - 1 \<le> real_of_int m" unfolding m_def by linarith
  then have "(r / g - 1) * g \<le> real_of_int m * g"
    using g by (intro mult_right_mono) simp_all
  moreover have "(r / g - 1) * g = r - g" using g by (simp add: algebra_simps)
  moreover have "g \<le> c" using assms(5) by (simp add: g_def)
  ultimately have "r - c \<le> real_of_int m * g" by linarith
  moreover have "is_f32 (real_of_int m * g)"
    unfolding g_def using m0 m1 assms(3) by (rule is_f32_scaled)
  ultimately have "f32 (r - c) \<le> real_of_int m * g" by (intro f32_upper)
  with lt show ?thesis by linarith
qed


lemma f32_idem: "is_f32 (f32 a)"
proof -
  have pos: "is_f32 (f32 a)" if a: "0 < a" for a
  proof -
    define n where "n = round_even (a / f32_ulp a)"
    have e: "f32 a = real_of_int n * 2 powr real_of_int (f32_exp a - 23)"
      using a by (simp add: f32_pos_eq n_def f32_ulp_def)
    from a have "real_of_int 0 \<le> a / f32_ulp a" by (simp add: less_imp_le)
    then have n0: "0 \<le> n" unfolding n_def by (rule round_even_ge)
    from f32_below [OF a] have "a \<le> f32_ulp a * 16777216"
      by (simp add: f32_ulp_times)
    then have "a / f32_ulp a \<le> real_of_int 16777216"
      by (simp add: divide_le_eq mult.commute)
    then have n1: "n \<le> 16777216" unfolding n_def by (rule round_even_le)
    have j: "- 149 \<le> f32_exp a - 23" "- 149 \<le> f32_exp a - 22"
      using f32_exp_ge [of a] by simp_all
    show ?thesis
    proof (cases "n = 16777216")
      case False
      with n1 have "n < 16777216" by simp
      with n0 j(1) show ?thesis unfolding e by (intro is_f32_scaled)
    next
      case True
      have "real_of_int n * 2 powr real_of_int (f32_exp a - 23)
              = real_of_int 8388608 * 2 powr real_of_int (f32_exp a - 22)"
        by (simp add: True powr_diff)
      moreover have "is_f32 (real_of_int 8388608 * 2 powr real_of_int (f32_exp a - 22))"
        using j(2) by (intro is_f32_scaled) simp_all
      ultimately show ?thesis by (simp only: e)
    qed
  qed
  consider "0 < a" | "a = 0" | "0 < - a" by linarith
  then show ?thesis
  proof cases
    case 1
    then show ?thesis by (rule pos)
  next
    case 2
    then show ?thesis by (simp add: is_f32_def f32_def)
  next
    case 3
    from is_f32_minus [OF pos [OF 3]] show ?thesis by (simp add: f32_minus)
  qed
qed

lemma update_star_collapse_exact:
  "state s = COLLAPSE \<Longrightarrow> snd (update_star g s dt) = collapse_tick (\<lambda>r. r) s dt"
  by (simp add: update_star_def collapse_tick_def Let_def state_defs)

lemma collapse_tick_fields:
  "velocity (collapse_tick rnd s dt) = rnd (velocity s + rnd (40 * dt))"
  "radius (collapse_tick rnd s dt)
     = rnd (radius s - rnd (rnd (velocity s + rnd (40 * dt)) * dt))"
  by (simp_all add: collapse_tick_def Let_def)

lemma is_f32_one: "is_f32 1" and is_f32_32nd: "is_f32 (1 / 32)"
proof -
  have "is_f32 (real_of_int 1 * 2 powr real_of_int 0)"
    by (intro is_f32_scaled) simp_all
  then show "is_f32 1" by simp
  have "is_f32 (real_of_int 1 * 2 powr real_of_int (- 5))"
    by (intro is_f32_scaled) simp_all
  then show "is_f32 (1 / 32)" by (simp add: powr_minus_divide)
qed


lemma collapse_tick_f32_step:
  assumes "is_f32 (velocity s)" and "is_f32 (radius s)" and "0 \<le> velocity s" and "0 < dt"
  shows "velocity s \<le> velocity (collapse_tick f32 s dt) \<and>
         radius (collapse_tick f32 s dt) \<le> radius s \<and>
         is_f32 (velocity (collapse_tick f32 s dt)) \<and>
         is_f32 (radius (collapse_tick f32 s dt)) \<and>
         (1 / 32 \<le> dt \<and> velocity s < 8388608 \<and> 0 < radius s \<and> radius s < 262144 \<longrightarrow>
            velocity s < velocity (collapse_tick f32 s dt) \<and>
            radius (collapse_tick f32 s dt) < radius s)"
proof -
  define a where "a = f32 (40 * dt)"
  define v' where "v' = f32 (velocity s + a)"
  define c where "c = f32 (v' * dt)"
  have f: "velocity (collapse_tick f32 s dt) = v'" "radius (collapse_tick f32 s dt) = f32 (radius s - c)"
    by (simp_all add: collapse_tick_fields a_def v'_def c_def)
  from assms(4) have a0: "0 \<le> a"
    unfolding a_def by (intro f32_nonneg) simp
  then have vv: "velocity s \<le> v'"
    unfolding v'_def using assms(1) by (intro f32_lower) simp_all
  with assms(3,4) have "0 \<le> v' * dt" by simp
  then have c0: "0 \<le> c"
    unfolding c_def by (rule f32_nonneg)
  then have rr: "f32 (radius s - c) \<le> radius s"
    using assms(2) by (intro f32_upper) simp_all
  have strict: "velocity s < v' \<and> f32 (radius s - c) < radius s"
    if h: "1 / 32 \<le> dt \<and> velocity s < 8388608 \<and> 0 < radius s \<and> radius s < 262144"
  proof -
    from h have a1: "1 \<le> a"
      unfolding a_def by (intro f32_lower is_f32_one) simp
    have p5: "(2::real) powr - 5 = 1 / 32"
      by (simp add: powr_minus_divide)
    have "velocity s < f32 (velocity s + a)"
      using assms(1,3) h a1 by (intro f32_strict_up [where j = 0]) simp_all
    then have v1: "velocity s < v'" by (simp add: v'_def)
    from assms(3) a1 have "1 \<le> v'"
      unfolding v'_def by (intro f32_lower is_f32_one) simp
    with h have "1 / 32 \<le> v' * dt"
      using mult_mono [of 1 v' "1 / 32" dt] by simp
    then have c1: "1 / 32 \<le> c"
      unfolding c_def by (intro f32_lower is_f32_32nd)
    have "f32 (radius s - c) < radius s"
      using assms(2) h c1 by (intro f32_strict_down [where j = "- 5"]) (simp_all add: p5)
    with v1 show ?thesis by simp
  qed
  from vv rr strict show ?thesis
    by (simp add: f v'_def f32_idem)
qed

lemma collapse_tick_f32_run:
  assumes "is_f32 (velocity s)" and "is_f32 (radius s)" and "0 \<le> velocity s" and "0 < dt"
  shows "is_f32 (velocity (((\<lambda>s. collapse_tick f32 s dt) ^^ n) s)) \<and>
         is_f32 (radius (((\<lambda>s. collapse_tick f32 s dt) ^^ n) s)) \<and>
         0 \<le> velocity (((\<lambda>s. collapse_tick f32 s dt) ^^ n) s)"
proof (induction n)
  case 0
  from assms show ?case by simp
next
  case (Suc n)
  let ?t = "((\<lambda>s. collapse_tick f32 s dt) ^^ n) s"
  from Suc have a: "is_f32 (velocity ?t)" and b: "is_f32 (radius ?t)" and c: "0 \<le> velocity ?t"
    by simp_all
  from collapse_tick_f32_step [OF a b c assms(4)] c show ?case
    by simp
qed

text \<open>
  C8, as amended. In binary32, a tick of the collapse with \<open>dt > 0\<close> on a state whose
  velocity is not negative (it is 0 on entering the collapse) leaves the velocity no
  smaller and the radius no larger, and its results are again binary32 numbers with a
  velocity that is not negative, so this holds on every tick \<open>n\<close> of the collapse. The
  changes are strict when the step is large enough to survive the rounding: for every
  \<open>dt \<ge> 1 / 32\<close> (the \<open>1 / 30\<close> of \<^verbatim>\<open>main\<close> included), a velocity below \<open>2 ^ 23\<close> and a
  radius between 0 and \<open>2 ^ 18\<close>.
\<close>

theorem collapse_monotone:
  assumes "is_f32 (velocity s)" and "is_f32 (radius s)" and "0 \<le> velocity s" and "0 < dt"
  shows "velocity s \<le> velocity (collapse_tick f32 s dt) \<and>
         radius (collapse_tick f32 s dt) \<le> radius s \<and>
         is_f32 (velocity (collapse_tick f32 s dt)) \<and>
         is_f32 (radius (collapse_tick f32 s dt)) \<and>
         (1 / 32 \<le> dt \<and> velocity s < 8388608 \<and> 0 < radius s \<and> radius s < 262144 \<longrightarrow>
            velocity s < velocity (collapse_tick f32 s dt) \<and>
            radius (collapse_tick f32 s dt) < radius s) \<and>
         velocity (((\<lambda>s. collapse_tick f32 s dt) ^^ n) s)
           \<le> velocity (((\<lambda>s. collapse_tick f32 s dt) ^^ Suc n) s) \<and>
         radius (((\<lambda>s. collapse_tick f32 s dt) ^^ Suc n) s)
           \<le> radius (((\<lambda>s. collapse_tick f32 s dt) ^^ n) s)"
proof -
  let ?t = "((\<lambda>s. collapse_tick f32 s dt) ^^ n) s"
  from collapse_tick_f32_run [OF assms, of n]
  have a: "is_f32 (velocity ?t)" and b: "is_f32 (radius ?t)" and c: "0 \<le> velocity ?t"
    by simp_all
  from collapse_tick_f32_step [OF a b c assms(4)]
  have "velocity ?t \<le> velocity (collapse_tick f32 ?t dt) \<and>
        radius (collapse_tick f32 ?t dt) \<le> radius ?t"
    by simp
  with collapse_tick_f32_step [OF assms] show ?thesis
    by simp
qed

theorem collapse_monotone_witness:
  "velocity collapse_entry < velocity (collapse_tick f32 collapse_entry (f32 (1 / 30))) \<and>
   radius (collapse_tick f32 collapse_entry (f32 (1 / 30))) < radius collapse_entry \<and>
   velocity collapse_entry \<le> velocity (collapse_tick f32 collapse_entry (1 / 2 ^ 20)) \<and>
   radius (collapse_tick f32 collapse_entry (1 / 2 ^ 20)) \<le> radius collapse_entry"
proof -
  have "is_f32 (real_of_int 10335612 * 2 powr real_of_int (- 20))"
    by (intro is_f32_scaled) simp_all
  then have r: "is_f32 (radius collapse_entry)"
    by (simp add: powr_minus_divide collapse_entry_def)
  have v: "is_f32 (velocity collapse_entry)" "0 \<le> velocity collapse_entry"
    by (simp_all add: is_f32_def f32_def collapse_entry_def)
  have d: "1 / 32 \<le> f32 (1 / 30)"
    by (intro f32_lower is_f32_32nd) simp
  then have d0: "0 < f32 (1 / 30)" by simp
  have b: "velocity collapse_entry < 8388608" "0 < radius collapse_entry"
    "radius collapse_entry < 262144"
    by (simp_all add: collapse_entry_def)
  from collapse_monotone [OF v(1) r v(2) d0] d b
    collapse_monotone [OF v(1) r v(2), of "1 / 2 ^ 20"]
  show ?thesis by simp
qed

lemma collapse_entry_absorbed:
  "radius (collapse_tick f32 collapse_entry (1 / 2 ^ 20)) = radius collapse_entry"
proof -
  have a: "f32 (40 * (1 / 2 ^ 20)) = 40 / 2 ^ 20" and a': "f32 (40 / 2 ^ 20) = 40 / 2 ^ 20"
  proof -
    have "is_f32 (real_of_int 40 * 2 powr real_of_int (- 20))"
      by (intro is_f32_scaled) simp_all
    then show "f32 (40 * (1 / 2 ^ 20)) = 40 / 2 ^ 20" "f32 (40 / 2 ^ 20) = 40 / 2 ^ 20"
      by (simp_all add: is_f32_def powr_minus_divide)
  qed
  have c: "f32 (40 / 2 ^ 20 * (1 / 2 ^ 20)) = 40 / 2 ^ 40"
  proof -
    have "is_f32 (real_of_int 40 * 2 powr real_of_int (- 40))"
      by (intro is_f32_scaled) simp_all
    then show ?thesis by (simp add: is_f32_def powr_minus_divide)
  qed
  define z :: real where "z = 10335612 / 2 ^ 20 - 40 / 2 ^ 40"
  have e: "f32_exp z = 3"
    by (rule f32_exp_eq) (simp_all add: z_def)
  have u: "f32_ulp z = 1 / 2 ^ 20"
    by (simp add: f32_ulp_def e powr_minus_divide)
  have q: "z / f32_ulp z = 10335612 - 40 / 2 ^ 20"
    by (simp only: u) (simp add: z_def)
  have fl: "\<lfloor>10335612 - 40 / 2 ^ 20 :: real\<rfloor> = 10335611"
    by (rule floor_unique) simp_all
  have "round_even (z / f32_ulp z) = 10335612"
    by (simp add: q round_even_def fl Let_def)
  moreover have "0 < z" by (simp add: z_def)
  ultimately have fz: "f32 z = 10335612 / 2 ^ 20"
    by (simp only: f32_pos_eq u)
  have rv: "radius collapse_entry = 10335612 / 2 ^ 20" "velocity collapse_entry = 0"
    by (simp_all add: collapse_entry_def)
  have "radius (collapse_tick f32 collapse_entry (1 / 2 ^ 20))
          = f32 (10335612 / 2 ^ 20 - f32 (f32 (0 + f32 (40 * (1 / 2 ^ 20))) * (1 / 2 ^ 20)))"
    by (simp only: collapse_tick_fields rv)
  also have "\<dots> = f32 (10335612 / 2 ^ 20 - f32 (f32 (40 / 2 ^ 20) * (1 / 2 ^ 20)))"
    by (simp only: a add_0)
  also have "\<dots> = f32 (10335612 / 2 ^ 20 - 40 / 2 ^ 40)"
    by (simp only: a' c)
  also have "\<dots> = 10335612 / 2 ^ 20"
    by (simp only: fz [unfolded z_def])
  finally show ?thesis by (simp only: rv)
qed

text \<open>
  C8 as the specification states it fails for small steps: on entering the collapse
  with radius \<open>10335612 / 2 ^ 20\<close> (about 9.857) and \<open>dt = 1 / 2 ^ 20\<close>, the velocity
  becomes \<open>40 / 2 ^ 20\<close> and the decrement \<open>40 / 2 ^ 40\<close> of the radius is far below half
  the distance \<open>1 / 2 ^ 20\<close> of neighbouring binary32 numbers, so the radius is rounded
  back to where it was: it does not strictly decrease.
\<close>

theorem collapse_absorbed_counterexample:
  "state collapse_entry = COLLAPSE \<and> is_f32 (velocity collapse_entry) \<and>
   is_f32 (radius collapse_entry) \<and> 0 \<le> velocity collapse_entry \<and>
   is_f32 (1 / 2 ^ 20) \<and> (0::real) < 1 / 2 ^ 20 \<and>
   \<not> radius (collapse_tick f32 collapse_entry (1 / 2 ^ 20)) < radius collapse_entry"
proof -
  have "is_f32 (real_of_int 10335612 * 2 powr real_of_int (- 20))"
    "is_f32 (real_of_int 1 * 2 powr real_of_int (- 20))"
    by (intro is_f32_scaled; simp)+
  then have "is_f32 (10335612 / 2 ^ 20)" "is_f32 (1 / 2 ^ 20)"
    by (simp_all add: powr_minus_divide)
  then have "is_f32 (radius collapse_entry)" and d: "is_f32 (1 / 2 ^ 20)"
    by (simp_all add: collapse_entry_def)
  moreover have "is_f32 (velocity collapse_entry)" "0 \<le> velocity collapse_entry"
    "state collapse_entry = COLLAPSE"
    by (simp_all add: is_f32_def f32_def collapse_entry_def)
  moreover have "\<not> radius (collapse_tick f32 collapse_entry (1 / 2 ^ 20)) < radius collapse_entry"
    by (simp only: collapse_entry_absorbed)
  moreover have "(0::real) < 1 / 2 ^ 20" by simp
  ultimately show ?thesis by (intro conjI)
qed

subsection \<open>The core and the radius of the explosion\<close>

text \<open>
  C3, as amended. A tick changes \<open>core_radius\<close> only when it takes the collapse to the
  bounce, and then sets it to 2; every other tick, the restart from the nebula to the
  giant included, leaves it as it is. So in the reachable states it is 0 up to the first
  bounce (no explosion yet, state giant or collapse) and 2 ever after.
\<close>

theorem core_radius_lifecycle:
  "core_radius (snd (update_star g s dt))
     = (if state s = COLLAPSE \<and> state (snd (update_star g s dt)) = BOUNCE then 2
        else core_radius s) \<and>
   (reachable s \<longrightarrow>
      core_radius s = (if particle_count s = 0 \<and> state s \<in> {GIANT, COLLAPSE} then 0 else 2))"
proof -
  have "reachable s \<longrightarrow>
      core_radius s = (if particle_count s = 0 \<and> state s \<in> {GIANT, COLLAPSE} then 0 else 2)"
    using reachable_inv [of s] by (simp add: star_inv_def)
  then show ?thesis
    by (simp add: step_core_radius step_state state_defs)
qed

theorem core_radius_lifecycle_witness:
  "reachable (init_star (replicate MAX_PARTICLES blank_particle) 0) \<and>
   core_radius (init_star (replicate MAX_PARTICLES blank_particle) 0) = 0 \<and>
   core_radius (snd (update_star (\<lambda>n. 0) late_nebula frame_dt)) = core_radius late_nebula"
proof -
  have r: "reachable (init_star (replicate MAX_PARTICLES blank_particle) 0)"
    by (rule reach_init) simp
  have n: "state late_nebula = NEBULA"
    by (simp add: late_nebula_def)
  show ?thesis
    using core_radius_lifecycle [of "\<lambda>n. 0" "init_star (replicate MAX_PARTICLES blank_particle) 0" frame_dt]
      core_radius_lifecycle [of "\<lambda>n. 0" late_nebula frame_dt] r n
    by (simp add: init_star_def state_defs)
qed

text \<open>
  C3 as the specification states it fails at the restart: the tick that takes
  \<open>late_nebula\<close> to the giant leaves \<open>core_radius\<close> at 2, and the run of \<^verbatim>\<open>main\<close> has
  such a tick, after which the core is not 0.
\<close>

theorem core_radius_restart_counterexample:
  "state late_nebula = NEBULA \<and>
   state (snd (update_star (\<lambda>n. 0) late_nebula frame_dt)) = GIANT \<and>
   core_radius (snd (update_star (\<lambda>n. 0) late_nebula frame_dt)) = 2 \<and>
   (\<exists>n. state (main_loop n (\<lambda>n. 0) (replicate MAX_PARTICLES blank_particle) 0) = NEBULA \<and>
        state (main_loop (Suc n) (\<lambda>n. 0) (replicate MAX_PARTICLES blank_particle) 0) = GIANT \<and>
        core_radius (main_loop (Suc n) (\<lambda>n. 0) (replicate MAX_PARTICLES blank_particle) 0) \<noteq> 0)"
proof -
  from main_loop_restart [of "replicate MAX_PARTICLES blank_particle" "\<lambda>n. 0" 0]
  obtain n where "state (main_loop n (\<lambda>n. 0) (replicate MAX_PARTICLES blank_particle) 0) = NEBULA"
    "state (main_loop (Suc n) (\<lambda>n. 0) (replicate MAX_PARTICLES blank_particle) 0) = GIANT"
    "core_radius (main_loop (Suc n) (\<lambda>n. 0) (replicate MAX_PARTICLES blank_particle) 0) = 2"
    by auto
  then have "\<exists>n. state (main_loop n (\<lambda>n. 0) (replicate MAX_PARTICLES blank_particle) 0) = NEBULA \<and>
        state (main_loop (Suc n) (\<lambda>n. 0) (replicate MAX_PARTICLES blank_particle) 0) = GIANT \<and>
        core_radius (main_loop (Suc n) (\<lambda>n. 0) (replicate MAX_PARTICLES blank_particle) 0) \<noteq> 0"
    by (intro exI [of _ n]) simp
  with late_nebula_restart [of "\<lambda>n. 0"] show ?thesis by simp
qed

lemma explosion_radius_kept:
  assumes "\<forall>i. j \<le> i \<and> i \<le> j + n \<longrightarrow> state (main_loop i g ps dn) \<in> {GIANT, COLLAPSE, BOUNCE}"
  shows "explosion_radius (main_loop (j + n) g ps dn) = explosion_radius (main_loop j g ps dn)"
  using assms
proof (induction n)
  case 0
  show ?case by simp
next
  case (Suc n)
  then have IH: "explosion_radius (main_loop (j + n) g ps dn) = explosion_radius (main_loop j g ps dn)"
    by simp
  from Suc.prems have a: "state (main_loop (j + n) g ps dn) \<in> {GIANT, COLLAPSE, BOUNCE}"
    and b: "state (main_loop (Suc (j + n)) g ps dn) \<in> {GIANT, COLLAPSE, BOUNCE}"
    by simp_all
  from main_loop_Suc [of "j + n" g ps dn] obtain g' where
    l: "main_loop (Suc (j + n)) g ps dn = snd (update_star g' (main_loop (j + n) g ps dn) frame_dt)" ..
  from b have "state (snd (update_star g' (main_loop (j + n) g ps dn) frame_dt)) \<noteq> EXPLOSION"
    unfolding l by (auto simp: state_defs)
  with a have "explosion_radius (snd (update_star g' (main_loop (j + n) g ps dn) frame_dt))
      = explosion_radius (main_loop (j + n) g ps dn)"
    by (auto simp: step_explosion_radius step_state state_defs split: if_splits)
  with l IH show ?case by simp
qed

lemma second_giant:
  assumes "length ps = MAX_PARTICLES"
  shows "\<exists>e. reachable (main_loop e g ps dn) \<and> state (main_loop e g ps dn) = GIANT \<and>
           explosion_radius (main_loop e g ps dn) = 42 + 1 / 5 \<and>
           (\<forall>i. e \<le> i \<and> i \<le> e + 150 \<longrightarrow> state (main_loop i g ps dn) \<in> {GIANT, COLLAPSE, BOUNCE})"
proof -
  from main_loop_cycle [of g ps dn] obtain b where
    f: "state (main_loop (b + 101) g ps dn) = GIANT" "time (main_loop (b + 101) g ps dn) = 0"
      "explosion_radius (main_loop (b + 101) g ps dn) = 42 + 1 / 5"
    by blast
  have r: "reachable (main_loop (b + 101) g ps dn)"
    using assms by (rule main_loop_reachable)
  have "\<forall>i. b + 101 \<le> i \<and> i \<le> b + 101 + 150 \<longrightarrow>
          state (main_loop i g ps dn) \<in> {GIANT, COLLAPSE, BOUNCE}"
  proof (intro allI impI)
    fix i assume i: "b + 101 \<le> i \<and> i \<le> b + 101 + 150"
    then have "i = b + 101 + (i - (b + 101))" "i - (b + 101) \<le> 150" by auto
    with giant_phase [where L = "\<lambda>k. main_loop k g ps dn" and a = "b + 101" and j = "i - (b + 101)"]
      f main_loop_Suc [of _ g ps dn]
    show "state (main_loop i g ps dn) \<in> {GIANT, COLLAPSE, BOUNCE}" by simp
  qed
  with r f have "reachable (main_loop (b + 101) g ps dn) \<and> state (main_loop (b + 101) g ps dn) = GIANT \<and>
           explosion_radius (main_loop (b + 101) g ps dn) = 42 + 1 / 5 \<and>
           (\<forall>i. b + 101 \<le> i \<and> i \<le> b + 101 + 150 \<longrightarrow>
              state (main_loop i g ps dn) \<in> {GIANT, COLLAPSE, BOUNCE})"
    by (intro conjI)
  then show ?thesis by (rule exI [of _ "b + 101"])
qed


lemma late_bounce_explodes:
  "state late_bounce = BOUNCE \<and>
   state (snd (update_star g late_bounce frame_dt)) = EXPLOSION \<and>
   explosion_radius late_bounce = 42 + 1 / 5"
  by (simp add: step_fields late_bounce_def frame_dt_def FPS_def state_defs)

text \<open>
  C4, as amended. In a reachable state of the giant, the collapse or the bounce,
  \<open>explosion_radius\<close> is 0 as long as no explosion has happened (the count of particles
  is still 0), and is above 42 once one has happened (the count is 450). From 0 it
  becomes nonzero exactly on the tick from the bounce to the explosion. For every state
  and every tick: the tick from the bounce to the explosion sets it to 3, a tick of the
  explosion adds \<open>30 * dt\<close>, a tick of the nebula adds \<open>6 * dt\<close> (the restart included:
  nothing resets it), and every other tick leaves it as it is. So along the rounds of
  \<^verbatim>\<open>main\<close> it keeps its value over any stretch of giant, collapse and bounce states,
  which after a restart is the value the nebula ended with.
\<close>

theorem explosion_radius_before_explosion:
  "(reachable s \<and> state s \<in> {GIANT, COLLAPSE, BOUNCE} \<longrightarrow>
      particle_count s = 0 \<and> explosion_radius s = 0 \<or>
      particle_count s = 450 \<and> explosion_radius s > 42) \<and>
   (reachable s \<and> explosion_radius s = 0 \<longrightarrow>
      explosion_radius (snd (update_star g s dt))
        = (if state s = BOUNCE \<and> state (snd (update_star g s dt)) = EXPLOSION then 3 else 0)) \<and>
   explosion_radius (snd (update_star g s dt))
     = (if state s = BOUNCE \<and> state (snd (update_star g s dt)) = EXPLOSION then 3
        else if state s = EXPLOSION then explosion_radius s + 30 * dt
        else if state s = NEBULA then explosion_radius s + 6 * dt
        else explosion_radius s) \<and>
   ((\<forall>i. j \<le> i \<and> i \<le> j + n \<longrightarrow> state (main_loop i g' ps dn) \<in> {GIANT, COLLAPSE, BOUNCE}) \<longrightarrow>
      explosion_radius (main_loop (j + n) g' ps dn) = explosion_radius (main_loop j g' ps dn))"
proof (intro conjI impI)
  assume "reachable s \<and> state s \<in> {GIANT, COLLAPSE, BOUNCE}"
  with reachable_inv [of s] show "particle_count s = 0 \<and> explosion_radius s = 0 \<or>
      particle_count s = 450 \<and> explosion_radius s > 42"
    by (auto simp: star_inv_def MAX_PARTICLES_def)
next
  assume a: "reachable s \<and> explosion_radius s = 0"
  with reachable_inv [of s] have "state s \<in> {GIANT, COLLAPSE, BOUNCE}"
    by (auto simp: star_inv_def)
  with a show "explosion_radius (snd (update_star g s dt))
        = (if state s = BOUNCE \<and> state (snd (update_star g s dt)) = EXPLOSION then 3 else 0)"
    by (auto simp: step_explosion_radius step_state state_defs)
next
  show "explosion_radius (snd (update_star g s dt))
     = (if state s = BOUNCE \<and> state (snd (update_star g s dt)) = EXPLOSION then 3
        else if state s = EXPLOSION then explosion_radius s + 30 * dt
        else if state s = NEBULA then explosion_radius s + 6 * dt
        else explosion_radius s)"
    by (simp add: step_explosion_radius step_state state_defs)
next
  assume "\<forall>i. j \<le> i \<and> i \<le> j + n \<longrightarrow> state (main_loop i g' ps dn) \<in> {GIANT, COLLAPSE, BOUNCE}"
  then show "explosion_radius (main_loop (j + n) g' ps dn) = explosion_radius (main_loop j g' ps dn)"
    by (rule explosion_radius_kept)
qed

theorem explosion_radius_before_explosion_witness:
  "explosion_radius (snd (update_star (\<lambda>n. 0) late_nebula frame_dt)) = explosion_radius late_nebula + 1 / 5 \<and>
   explosion_radius (snd (update_star (\<lambda>n. 0) (snd (update_star (\<lambda>n. 0) late_nebula frame_dt)) frame_dt))
     = explosion_radius late_nebula + 1 / 5 \<and>
   explosion_radius (snd (update_star (\<lambda>n. 0) late_bounce frame_dt)) = 3 \<and>
   (\<exists>e. reachable (main_loop e (\<lambda>n. 0) (replicate MAX_PARTICLES blank_particle) 0) \<and>
        state (main_loop e (\<lambda>n. 0) (replicate MAX_PARTICLES blank_particle) 0) = GIANT \<and>
        particle_count (main_loop e (\<lambda>n. 0) (replicate MAX_PARTICLES blank_particle) 0) = 450 \<and>
        explosion_radius (main_loop e (\<lambda>n. 0) (replicate MAX_PARTICLES blank_particle) 0) > 42 \<and>
        explosion_radius (main_loop (e + 150) (\<lambda>n. 0) (replicate MAX_PARTICLES blank_particle) 0)
          = explosion_radius (main_loop e (\<lambda>n. 0) (replicate MAX_PARTICLES blank_particle) 0))"
proof (intro conjI)
  let ?g = "\<lambda>n::nat. 0::int"
  let ?ps = "replicate MAX_PARTICLES blank_particle"
  let ?s1 = "snd (update_star ?g late_nebula frame_dt)"
  note t = explosion_radius_before_explosion
  show a: "explosion_radius ?s1 = explosion_radius late_nebula + 1 / 5"
    using t [of late_nebula ?g frame_dt 0 0 ?g ?ps 0] late_nebula_restart [of ?g]
    by (simp add: state_defs frame_dt_def FPS_def)
  show "explosion_radius (snd (update_star ?g ?s1 frame_dt)) = explosion_radius late_nebula + 1 / 5"
    using t [of ?s1 ?g frame_dt 0 0 ?g ?ps 0] late_nebula_restart [of ?g] a
    by (simp add: state_defs)
  show "explosion_radius (snd (update_star ?g late_bounce frame_dt)) = 3"
    using t [of late_bounce ?g frame_dt 0 0 ?g ?ps 0] late_bounce_explodes [of ?g]
    by simp
  from second_giant [of ?ps ?g 0] obtain e where r: "reachable (main_loop e ?g ?ps 0)"
    and g: "state (main_loop e ?g ?ps 0) = GIANT"
    and x: "explosion_radius (main_loop e ?g ?ps 0) = 42 + 1 / 5"
    and k: "\<forall>i. e \<le> i \<and> i \<le> e + 150 \<longrightarrow> state (main_loop i ?g ?ps 0) \<in> {GIANT, COLLAPSE, BOUNCE}"
    by auto
  note u = t [of "main_loop e ?g ?ps 0" ?g frame_dt e 150 ?g ?ps 0]
  from conjunct1 [OF u] r g x have "particle_count (main_loop e ?g ?ps 0) = 450"
    by simp
  moreover from conjunct2 [OF conjunct2 [OF conjunct2 [OF u]]] k
  have "explosion_radius (main_loop (e + 150) ?g ?ps 0) = explosion_radius (main_loop e ?g ?ps 0)"
    by (rule mp)
  ultimately have "reachable (main_loop e ?g ?ps 0) \<and> state (main_loop e ?g ?ps 0) = GIANT \<and>
        particle_count (main_loop e ?g ?ps 0) = 450 \<and>
        explosion_radius (main_loop e ?g ?ps 0) > 42 \<and>
        explosion_radius (main_loop (e + 150) ?g ?ps 0) = explosion_radius (main_loop e ?g ?ps 0)"
    using r g x by simp
  then show "\<exists>e. reachable (main_loop e ?g ?ps 0) \<and> state (main_loop e ?g ?ps 0) = GIANT \<and>
        particle_count (main_loop e ?g ?ps 0) = 450 \<and>
        explosion_radius (main_loop e ?g ?ps 0) > 42 \<and>
        explosion_radius (main_loop (e + 150) ?g ?ps 0) = explosion_radius (main_loop e ?g ?ps 0)"
    by (rule exI [of _ e])
qed

text \<open>
  C4 as the specification states it fails after the restart: the tick that takes
  \<open>late_nebula\<close> to the giant leaves \<open>explosion_radius\<close> at 42.2, and the run of
  \<^verbatim>\<open>main\<close> reaches a giant state whose \<open>explosion_radius\<close> is not 0.
\<close>

theorem explosion_radius_restart_counterexample:
  "state (snd (update_star (\<lambda>n. 0) late_nebula frame_dt)) = GIANT \<and>
   explosion_radius (snd (update_star (\<lambda>n. 0) late_nebula frame_dt)) = 42 + 1 / 5 \<and>
   (\<exists>n. reachable (main_loop n (\<lambda>n. 0) (replicate MAX_PARTICLES blank_particle) 0) \<and>
        state (main_loop n (\<lambda>n. 0) (replicate MAX_PARTICLES blank_particle) 0) = GIANT \<and>
        explosion_radius (main_loop n (\<lambda>n. 0) (replicate MAX_PARTICLES blank_particle) 0) \<noteq> 0)"
proof -
  from main_loop_restart [of "replicate MAX_PARTICLES blank_particle" "\<lambda>n. 0" 0]
  obtain n where "reachable (main_loop (Suc n) (\<lambda>n. 0) (replicate MAX_PARTICLES blank_particle) 0)"
    "state (main_loop (Suc n) (\<lambda>n. 0) (replicate MAX_PARTICLES blank_particle) 0) = GIANT"
    "explosion_radius (main_loop (Suc n) (\<lambda>n. 0) (replicate MAX_PARTICLES blank_particle) 0) = 42 + 1 / 5"
    by auto
  then have "\<exists>n. reachable (main_loop n (\<lambda>n. 0) (replicate MAX_PARTICLES blank_particle) 0) \<and>
        state (main_loop n (\<lambda>n. 0) (replicate MAX_PARTICLES blank_particle) 0) = GIANT \<and>
        explosion_radius (main_loop n (\<lambda>n. 0) (replicate MAX_PARTICLES blank_particle) 0) \<noteq> 0"
    by (intro exI [of _ "Suc n"]) simp
  with late_nebula_restart [of "\<lambda>n. 0"] show ?thesis by simp
qed

subsection \<open>The cycle and the count of particles\<close>

lemma main_loop_stages_a:
  "\<exists>b. 165 \<le> b \<and> ((\<forall>k<151. state (main_loop k g ps dn) = GIANT) \<and>
        (\<forall>k. 151 \<le> k \<and> k < b \<longrightarrow> state (main_loop k g ps dn) = COLLAPSE) \<and>
        (\<forall>k. b \<le> k \<and> k < b + 25 \<longrightarrow> state (main_loop k g ps dn) = BOUNCE) \<and>
        (\<forall>k. b + 25 \<le> k \<and> k < b + 55 \<longrightarrow> state (main_loop k g ps dn) = EXPLOSION) \<and>
        (\<forall>k. b + 55 \<le> k \<and> k < b + 101 \<longrightarrow> state (main_loop k g ps dn) = NEBULA) \<and>
        state (main_loop (b + 101) g ps dn) = GIANT \<and>
        radius (main_loop (b + 101) g ps dn) = 9 \<and>
        time (main_loop (b + 101) g ps dn) = 0)"
  using main_loop_cycle [of g ps dn]
  apply (elim exE conjE)
  apply (rule exI)
  apply (intro conjI)
  apply assumption+
  done

lemma main_loop_stages:
  "\<exists>a b c d e. 0 < a \<and> a < b \<and> b < c \<and> c < d \<and> d < e \<and>
        (\<forall>k<a. state (main_loop k g ps dn) = GIANT) \<and>
        (\<forall>k. a \<le> k \<and> k < b \<longrightarrow> state (main_loop k g ps dn) = COLLAPSE) \<and>
        (\<forall>k. b \<le> k \<and> k < c \<longrightarrow> state (main_loop k g ps dn) = BOUNCE) \<and>
        (\<forall>k. c \<le> k \<and> k < d \<longrightarrow> state (main_loop k g ps dn) = EXPLOSION) \<and>
        (\<forall>k. d \<le> k \<and> k < e \<longrightarrow> state (main_loop k g ps dn) = NEBULA) \<and>
        state (main_loop e g ps dn) = GIANT \<and>
        radius (main_loop e g ps dn) = 9 \<and>
        time (main_loop e g ps dn) = 0"
proof -
  let ?P = "\<lambda>a b c d e. 0 < a \<and> a < b \<and> b < c \<and> c < d \<and> d < e \<and>
        (\<forall>k<a. state (main_loop k g ps dn) = GIANT) \<and>
        (\<forall>k. a \<le> k \<and> k < b \<longrightarrow> state (main_loop k g ps dn) = COLLAPSE) \<and>
        (\<forall>k. b \<le> k \<and> k < c \<longrightarrow> state (main_loop k g ps dn) = BOUNCE) \<and>
        (\<forall>k. c \<le> k \<and> k < d \<longrightarrow> state (main_loop k g ps dn) = EXPLOSION) \<and>
        (\<forall>k. d \<le> k \<and> k < e \<longrightarrow> state (main_loop k g ps dn) = NEBULA) \<and>
        state (main_loop e g ps dn) = GIANT \<and>
        radius (main_loop e g ps dn) = 9 \<and>
        time (main_loop e g ps dn) = 0"
  from main_loop_stages_a [of g ps dn] obtain b where bp: "165 \<le> b \<and>
       ((\<forall>k<151. state (main_loop k g ps dn) = GIANT) \<and>
        (\<forall>k. 151 \<le> k \<and> k < b \<longrightarrow> state (main_loop k g ps dn) = COLLAPSE) \<and>
        (\<forall>k. b \<le> k \<and> k < b + 25 \<longrightarrow> state (main_loop k g ps dn) = BOUNCE) \<and>
        (\<forall>k. b + 25 \<le> k \<and> k < b + 55 \<longrightarrow> state (main_loop k g ps dn) = EXPLOSION) \<and>
        (\<forall>k. b + 55 \<le> k \<and> k < b + 101 \<longrightarrow> state (main_loop k g ps dn) = NEBULA) \<and>
        state (main_loop (b + 101) g ps dn) = GIANT \<and>
        radius (main_loop (b + 101) g ps dn) = 9 \<and>
        time (main_loop (b + 101) g ps dn) = 0)" ..
  note b = conjunct1 [OF bp] and p = conjunct2 [OF bp]
  have o1: "(0::nat) < 151" by simp
  from b have o2: "151 < b" by simp
  have o3: "b < b + 25" and o4: "b + 25 < b + 55" and o5: "b + 55 < b + 101" by simp_all
  have i: "?P 151 b (b + 25) (b + 55) (b + 101)"
    by (rule conjI [OF o1 conjI [OF o2 conjI [OF o3 conjI [OF o4 conjI [OF o5 p]]]]])
  have e1: "\<exists>e. ?P 151 b (b + 25) (b + 55) e"
    by (rule exI [of _ "b + 101"]) (rule i)
  have e2: "\<exists>d e. ?P 151 b (b + 25) d e"
    by (rule exI [of _ "b + 55"]) (rule e1)
  have e3: "\<exists>c d e. ?P 151 b c d e"
    by (rule exI [of _ "b + 25"]) (rule e2)
  have e4: "\<exists>b c d e. ?P 151 b c d e"
    by (rule exI [of _ b]) (rule e3)
  show "\<exists>a b c d e. ?P a b c d e"
    by (rule exI [of _ 151]) (rule e4)
qed


text \<open>
  C9. From the initial state the rounds of \<^verbatim>\<open>main\<close> (\<open>dt = 1 / 30\<close>) go through five
  stretches of states, giant, collapse, bounce, explosion and nebula in this order, each
  of them not empty, and the state after the nebula is the giant again, with radius 9
  and time 0. (With exact arithmetic the stretches start at the rounds 0, 151, 165 to
  169, and then 25, 55 and 101 rounds after the start of the bounce: lemma
  \<open>main_loop_cycle\<close>.) No tick, from any state and for any \<open>dt\<close>, changes the state
  otherwise than along giant, collapse, bounce, explosion, nebula, giant.
\<close>

theorem cycle_closure:
  "(\<exists>a b c d e. 0 < a \<and> a < b \<and> b < c \<and> c < d \<and> d < e \<and>
        (\<forall>k<a. state (main_loop k g ps dn) = GIANT) \<and>
        (\<forall>k. a \<le> k \<and> k < b \<longrightarrow> state (main_loop k g ps dn) = COLLAPSE) \<and>
        (\<forall>k. b \<le> k \<and> k < c \<longrightarrow> state (main_loop k g ps dn) = BOUNCE) \<and>
        (\<forall>k. c \<le> k \<and> k < d \<longrightarrow> state (main_loop k g ps dn) = EXPLOSION) \<and>
        (\<forall>k. d \<le> k \<and> k < e \<longrightarrow> state (main_loop k g ps dn) = NEBULA) \<and>
        state (main_loop e g ps dn) = GIANT \<and>
        radius (main_loop e g ps dn) = 9 \<and>
        time (main_loop e g ps dn) = 0) \<and>
   (state (snd (update_star g' s dt)) = state s \<or>
    (state s, state (snd (update_star g' s dt)))
      \<in> {(GIANT, COLLAPSE), (COLLAPSE, BOUNCE), (BOUNCE, EXPLOSION), (EXPLOSION, NEBULA),
         (NEBULA, GIANT)})"
  by (rule conjI [OF main_loop_stages step_order])

theorem cycle_closure_witness:
  "(\<exists>a b c d e. 0 < a \<and> a < b \<and> b < c \<and> c < d \<and> d < e \<and>
        (\<forall>k<a. state (main_loop k (\<lambda>n. 0) (replicate MAX_PARTICLES blank_particle) 0) = GIANT) \<and>
        (\<forall>k. a \<le> k \<and> k < b \<longrightarrow>
           state (main_loop k (\<lambda>n. 0) (replicate MAX_PARTICLES blank_particle) 0) = COLLAPSE) \<and>
        (\<forall>k. b \<le> k \<and> k < c \<longrightarrow>
           state (main_loop k (\<lambda>n. 0) (replicate MAX_PARTICLES blank_particle) 0) = BOUNCE) \<and>
        (\<forall>k. c \<le> k \<and> k < d \<longrightarrow>
           state (main_loop k (\<lambda>n. 0) (replicate MAX_PARTICLES blank_particle) 0) = EXPLOSION) \<and>
        (\<forall>k. d \<le> k \<and> k < e \<longrightarrow>
           state (main_loop k (\<lambda>n. 0) (replicate MAX_PARTICLES blank_particle) 0) = NEBULA) \<and>
        state (main_loop e (\<lambda>n. 0) (replicate MAX_PARTICLES blank_particle) 0) = GIANT \<and>
        radius (main_loop e (\<lambda>n. 0) (replicate MAX_PARTICLES blank_particle) 0) = 9 \<and>
        time (main_loop e (\<lambda>n. 0) (replicate MAX_PARTICLES blank_particle) 0) = 0) \<and>
   (state late_nebula, state (snd (update_star (\<lambda>n. 0) late_nebula frame_dt))) = (NEBULA, GIANT)"
proof (rule conjI)
  note c = cycle_closure [of "\<lambda>n. 0" "replicate MAX_PARTICLES blank_particle" 0 "\<lambda>n. 0"
      late_nebula frame_dt]
  from conjunct2 [OF c]
  show "(state late_nebula, state (snd (update_star (\<lambda>n. 0) late_nebula frame_dt)))
          = (NEBULA, GIANT)"
    by (simp add: late_nebula_restart)
qed (rule conjunct1 [OF cycle_closure [of "\<lambda>n. 0" "replicate MAX_PARTICLES blank_particle" 0
        "\<lambda>n. 0" late_nebula frame_dt]])

text \<open>
  C10. In a reachable state the count of particles is 0 or 450, and it is 0 only in the
  giant, the collapse or the bounce. A tick changes the count only when it goes from
  the bounce to the explosion, where the count becomes 450; from 450 it never changes
  again. While the count is 0, \<^verbatim>\<open>draw_star\<close> prints no \<open>+\<close> and \<^verbatim>\<open>update_particles\<close>
  returns the state as it got it.
\<close>

theorem particle_count_two_values:
  "(reachable s \<longrightarrow> particle_count s = 0 \<or> particle_count s = 450) \<and>
   (reachable s \<and> particle_count s = 0 \<longrightarrow> state s \<in> {GIANT, COLLAPSE, BOUNCE}) \<and>
   (particle_count s = 450 \<longrightarrow> particle_count (snd (update_star g s dt)) = 450) \<and>
   (particle_count (snd (update_star g s dt)) \<noteq> particle_count s \<longrightarrow>
      state s = BOUNCE \<and> state (snd (update_star g s dt)) = EXPLOSION) \<and>
   (state s = BOUNCE \<and> state (snd (update_star g s dt)) = EXPLOSION \<longrightarrow>
      particle_count (snd (update_star g s dt)) = 450) \<and>
   (particle_count s = 0 \<longrightarrow>
      CHR ''+'' \<notin> set (snd (draw_star g s)) \<and> update_particles s dt = s)"
proof (intro conjI impI)
  assume "reachable s"
  with reachable_inv [of s] show "particle_count s = 0 \<or> particle_count s = 450"
    by (auto simp: star_inv_def MAX_PARTICLES_def)
next
  assume "reachable s \<and> particle_count s = 0"
  with reachable_inv [of s] show "state s \<in> {GIANT, COLLAPSE, BOUNCE}"
    by (auto simp: star_inv_def MAX_PARTICLES_def)
next
  assume "particle_count s = 450"
  then show "particle_count (snd (update_star g s dt)) = 450"
    by (simp add: step_particle_count MAX_PARTICLES_def)
next
  assume "particle_count (snd (update_star g s dt)) \<noteq> particle_count s"
  then show "state s = BOUNCE" "state (snd (update_star g s dt)) = EXPLOSION"
    by (simp_all add: step_particle_count step_state state_defs split: if_splits)
next
  assume "state s = BOUNCE \<and> state (snd (update_star g s dt)) = EXPLOSION"
  then show "particle_count (snd (update_star g s dt)) = 450"
    by (simp add: step_particle_count step_state state_defs MAX_PARTICLES_def split: if_splits)
next
  assume "particle_count s = 0"
  then show "CHR ''+'' \<notin> set (snd (draw_star g s))" "update_particles s dt = s"
    by (simp_all add: draw_star_no_ejecta update_particles_none)
qed

theorem particle_count_two_values_witness:
  "reachable (init_star (replicate MAX_PARTICLES blank_particle) 0) \<and>
   particle_count (init_star (replicate MAX_PARTICLES blank_particle) 0) = 0 \<and>
   CHR ''+'' \<notin> set (snd (draw_star (\<lambda>n. 0) (init_star (replicate MAX_PARTICLES blank_particle) 0))) \<and>
   update_particles (init_star (replicate MAX_PARTICLES blank_particle) 0) frame_dt
     = init_star (replicate MAX_PARTICLES blank_particle) 0 \<and>
   particle_count (snd (update_star (\<lambda>n. 0) early_explosion frame_dt)) = 450"
proof -
  have r: "reachable (init_star (replicate MAX_PARTICLES blank_particle) 0)"
    by (rule reach_init) simp
  have z: "particle_count (init_star (replicate MAX_PARTICLES blank_particle) 0) = 0"
    by (simp add: init_star_def)
  have e: "particle_count early_explosion = 450"
    by (simp add: early_explosion_def MAX_PARTICLES_def)
  from particle_count_two_values [of "init_star (replicate MAX_PARTICLES blank_particle) 0" "\<lambda>n. 0" frame_dt]
    particle_count_two_values [of early_explosion "\<lambda>n. 0" frame_dt] r z e
  show ?thesis by simp
qed

end
